(* ===== verification/Prelude.thy ===== *)
theory Prelude
  imports Main "HOL-Library.Word" "HOL-Library.AList" "HOL-Library.Sublist"
begin

text \<open>
  Shared vocabulary of the development: the machine types of the Rust sources, the parts of
  the Rust standard library that the sources call (string methods, integer parsing and
  printing, UTF-8 validation, the \<open>Read\<close> and \<open>Write\<close> traits), and the generic lemmas the
  component theories use.

  A Rust \<open>Vec<u8>\<close> or \<open>&[u8]\<close> is a list of \<open>8 word\<close>. A Rust \<open>String\<close> or \<open>&str\<close> is a HOL
  \<open>string\<close> holding its UTF-8 bytes, one \<open>char\<close> per byte, so \<open>length\<close> is Rust's \<open>len()\<close>.
  A Rust \<open>Result<T, E>\<close> is \<open>'e + 't\<close> with \<open>Inl\<close> the error. A \<open>usize\<close> is a \<open>nat\<close>, with
  the 64-bit bound written out wherever the source checks for it. A \<open>HashMap\<close> is an
  association list with distinct keys (operations of \<open>HOL-Library.AList\<close>).
\<close>

unbundle bit_operations_syntax

section \<open>Types\<close>

type_synonym u8 = "8 word"
type_synonym u16 = "16 word"
type_synonym u32 = "32 word"
type_synonym u64 = "64 word"
type_synonym bytes = "u8 list"
type_synonym headers = "(string \<times> string) list"

abbreviation usize_max :: nat where
  "usize_max \<equiv> 2 ^ 64 - 1"

text \<open>Rewrite collections that the component theories extend and their proofs use.\<close>

named_theorems str_simps \<open>evaluation of the string operations\<close>
named_theorems conn_inv_intros \<open>preservation of connection invariants\<close>

section \<open>Bytes and integers in big-endian order\<close>

text \<open>The source builds integers from bytes as \<open>(b0 << 24) | (b1 << 16) | ...\<close>.\<close>

definition be16 :: "u8 \<Rightarrow> u8 \<Rightarrow> u16" where
  "be16 b0 b1 = push_bit 8 (ucast b0) OR ucast b1"

definition be24 :: "u8 \<Rightarrow> u8 \<Rightarrow> u8 \<Rightarrow> u32" where
  "be24 b0 b1 b2 = push_bit 16 (ucast b0) OR push_bit 8 (ucast b1) OR ucast b2"

definition be32 :: "u8 \<Rightarrow> u8 \<Rightarrow> u8 \<Rightarrow> u8 \<Rightarrow> u32" where
  "be32 b0 b1 b2 b3 =
     push_bit 24 (ucast b0) OR push_bit 16 (ucast b1) OR push_bit 8 (ucast b2) OR ucast b3"

text \<open>Rust's \<open>u32::to_be_bytes\<close> and \<open>u16::to_be_bytes\<close>.\<close>

definition u32_to_be_bytes :: "u32 \<Rightarrow> bytes" where
  "u32_to_be_bytes w = [ucast (drop_bit 24 w), ucast (drop_bit 16 w), ucast (drop_bit 8 w), ucast w]"

definition u16_to_be_bytes :: "u16 \<Rightarrow> bytes" where
  "u16_to_be_bytes w = [ucast (drop_bit 8 w), ucast w]"

lemma length_u32_to_be_bytes [simp]: "length (u32_to_be_bytes w) = 4"
  by (simp add: u32_to_be_bytes_def)

lemma length_u16_to_be_bytes [simp]: "length (u16_to_be_bytes w) = 2"
  by (simp add: u16_to_be_bytes_def)

text \<open>A bit of a byte-assembled word, by the byte that the position falls in.\<close>

lemma byte_cases32:
  assumes "n < LENGTH(32)"
  obtains "n < 8" | "8 \<le> n" "n < 16" | "16 \<le> n" "n < 24" | "24 \<le> n" "n < 32"
  using assms by fastforce

lemma be32_to_be_bytes [simp]:
  "be32 (ucast (drop_bit 24 w)) (ucast (drop_bit 16 w)) (ucast (drop_bit 8 w)) (ucast w) = w"
proof (rule bit_word_eqI)
  fix n assume "n < LENGTH(32)"
  then show "bit (be32 (ucast (drop_bit 24 w)) (ucast (drop_bit 16 w)) (ucast (drop_bit 8 w))
      (ucast w)) n = bit w n"
    by (cases n rule: byte_cases32) (auto simp: be32_def bit_simps)
qed

lemma be16_to_be_bytes [simp]: "be16 (ucast (drop_bit 8 w)) (ucast w) = w"
  unfolding be16_def
  by (rule bit_word_eqI) (auto simp: bit_simps)

lemma be24_of_bytes:
  "be24 (ucast (drop_bit 16 w)) (ucast (drop_bit 8 w)) (ucast w) = take_bit 24 w"
proof (rule bit_word_eqI)
  fix n assume "n < LENGTH(32)"
  then show "bit (be24 (ucast (drop_bit 16 w)) (ucast (drop_bit 8 w)) (ucast w)) n
      = bit (take_bit 24 w) n"
    by (cases n rule: byte_cases32) (auto simp: be24_def bit_simps)
qed

text \<open>The cast of a wider integer \<open>as i32\<close>: two's complement wrap-around.\<close>

definition as_i32 :: "int \<Rightarrow> int" where
  "as_i32 x = (x + 2 ^ 31) mod 2 ^ 32 - 2 ^ 31"

abbreviation i32_min :: int where "i32_min \<equiv> - (2 ^ 31)"
abbreviation i32_max :: int where "i32_max \<equiv> 2 ^ 31 - 1"

lemma as_i32_id: "i32_min \<le> x \<Longrightarrow> x \<le> i32_max \<Longrightarrow> as_i32 x = x"
  by (simp add: as_i32_def)

lemma as_i32_range: "i32_min \<le> as_i32 x" "as_i32 x \<le> i32_max"
proof -
  have "0 \<le> (x + 2 ^ 31) mod 2 ^ 32" "(x + 2 ^ 31) mod 2 ^ 32 < 2 ^ 32" by simp_all
  then show "i32_min \<le> as_i32 x" "as_i32 x \<le> i32_max"
    by (simp_all add: as_i32_def)
qed

section \<open>Characters and strings\<close>

abbreviation code :: "char \<Rightarrow> nat" where
  "code c \<equiv> of_char c"

abbreviation CR :: char where "CR \<equiv> CHR 0x0D"
abbreviation LF :: char where "LF \<equiv> CHR 0x0A"
abbreviation NUL :: char where "NUL \<equiv> CHR 0x00"
abbreviation DQ :: char where "DQ \<equiv> CHR 0x22"
abbreviation BSLASH :: char where "BSLASH \<equiv> CHR 0x5C"

definition is_ascii :: "string \<Rightarrow> bool" where
  "is_ascii s \<longleftrightarrow> list_all (\<lambda>c. code c < 128) s"

definition is_ascii_uppercase :: "char \<Rightarrow> bool" where
  "is_ascii_uppercase c \<longleftrightarrow> 65 \<le> code c \<and> code c \<le> 90"

definition is_ascii_lowercase :: "char \<Rightarrow> bool" where
  "is_ascii_lowercase c \<longleftrightarrow> 97 \<le> code c \<and> code c \<le> 122"

definition is_ascii_alphabetic :: "char \<Rightarrow> bool" where
  "is_ascii_alphabetic c \<longleftrightarrow> is_ascii_uppercase c \<or> is_ascii_lowercase c"

definition is_ascii_digit :: "char \<Rightarrow> bool" where
  "is_ascii_digit c \<longleftrightarrow> 48 \<le> code c \<and> code c \<le> 57"

definition is_ascii_alphanumeric :: "char \<Rightarrow> bool" where
  "is_ascii_alphanumeric c \<longleftrightarrow> is_ascii_alphabetic c \<or> is_ascii_digit c"

definition lower_char :: "char \<Rightarrow> char" where
  "lower_char c = (if is_ascii_uppercase c then char_of (code c + 32) else c)"

definition upper_char :: "char \<Rightarrow> char" where
  "upper_char c = (if is_ascii_lowercase c then char_of (code c - 32) else c)"

text \<open>
  \<open>to_ascii_lowercase\<close> and \<open>to_ascii_uppercase\<close>. The sources also call the Unicode versions
  \<open>to_lowercase\<close> and \<open>to_uppercase\<close>; on ASCII text they are these functions, and their effect
  on other characters is not modelled (such characters are left as they are).
\<close>

definition to_ascii_lowercase :: "string \<Rightarrow> string" where
  "to_ascii_lowercase = map lower_char"

definition to_ascii_uppercase :: "string \<Rightarrow> string" where
  "to_ascii_uppercase = map upper_char"

definition eq_ignore_ascii_case :: "string \<Rightarrow> string \<Rightarrow> bool" where
  "eq_ignore_ascii_case a b \<longleftrightarrow> to_ascii_lowercase a = to_ascii_lowercase b"

lemma eq_ignore_ascii_case_refl [simp]: "eq_ignore_ascii_case a a"
  by (simp add: eq_ignore_ascii_case_def)

lemma eq_ignore_ascii_case_sym: "eq_ignore_ascii_case a b = eq_ignore_ascii_case b a"
  by (auto simp: eq_ignore_ascii_case_def)

lemma eq_ignore_ascii_case_trans [trans]:
  "eq_ignore_ascii_case a b \<Longrightarrow> eq_ignore_ascii_case b c \<Longrightarrow> eq_ignore_ascii_case a c"
  by (simp add: eq_ignore_ascii_case_def)

subsection \<open>Trimming\<close>

text \<open>
  Rust's \<open>trim\<close> removes Unicode white space. \<open>ws_len\<close> is the number of bytes of the
  white-space character a UTF-8 string starts with, 0 for none; \<open>ws_len_rev\<close> reads the
  reversed string, so it finds the character a string ends with.
\<close>

definition ws1 :: "nat \<Rightarrow> bool" where
  "ws1 a \<longleftrightarrow> a = 32 \<or> (9 \<le> a \<and> a \<le> 13)"

definition ws2 :: "nat \<Rightarrow> nat \<Rightarrow> bool" where
  "ws2 a b \<longleftrightarrow> a = 0xC2 \<and> (b = 0x85 \<or> b = 0xA0)"

definition ws3 :: "nat \<Rightarrow> nat \<Rightarrow> nat \<Rightarrow> bool" where
  "ws3 a b c \<longleftrightarrow>
     (a = 0xE1 \<and> b = 0x9A \<and> c = 0x80) \<or>
     (a = 0xE2 \<and> b = 0x80 \<and> (0x80 \<le> c \<and> c \<le> 0x8A \<or> c = 0xA8 \<or> c = 0xA9 \<or> c = 0xAF)) \<or>
     (a = 0xE2 \<and> b = 0x81 \<and> c = 0x9F) \<or>
     (a = 0xE3 \<and> b = 0x80 \<and> c = 0x80)"

fun ws_len :: "string \<Rightarrow> nat" where
  "ws_len (a # b # c # s) =
     (if ws1 (code a) then 1 else if ws2 (code a) (code b) then 2
      else if ws3 (code a) (code b) (code c) then 3 else 0)"
| "ws_len [a, b] = (if ws1 (code a) then 1 else if ws2 (code a) (code b) then 2 else 0)"
| "ws_len [a] = (if ws1 (code a) then 1 else 0)"
| "ws_len [] = 0"

fun ws_len_rev :: "string \<Rightarrow> nat" where
  "ws_len_rev (a # b # c # s) =
     (if ws1 (code a) then 1 else if ws2 (code b) (code a) then 2
      else if ws3 (code c) (code b) (code a) then 3 else 0)"
| "ws_len_rev [a, b] = (if ws1 (code a) then 1 else if ws2 (code b) (code a) then 2 else 0)"
| "ws_len_rev [a] = (if ws1 (code a) then 1 else 0)"
| "ws_len_rev [] = 0"

function trim_with :: "(string \<Rightarrow> nat) \<Rightarrow> string \<Rightarrow> string" where
  "trim_with f s = (if s = [] \<or> f s = 0 then s else trim_with f (drop (f s) s))"
  by pat_completeness auto
termination
  by (relation "measure (\<lambda>(f, s). length s)") auto

declare trim_with.simps [simp del]

definition trim_start :: "string \<Rightarrow> string" where
  "trim_start = trim_with ws_len"

definition trim_end :: "string \<Rightarrow> string" where
  "trim_end s = rev (trim_with ws_len_rev (rev s))"

definition trim :: "string \<Rightarrow> string" where
  "trim s = trim_end (trim_start s)"

lemma suffix_trim_with: "suffix (trim_with f s) s"
proof (induction f s rule: trim_with.induct)
  case (1 f s)
  then show ?case
    by (subst trim_with.simps) (auto intro: suffix_order.trans suffix_drop)
qed

lemma set_trim: "set (trim s) \<subseteq> set s"
proof -
  have *: "set (trim_with f t) \<subseteq> set t" for f t
    using suffix_trim_with [of f t] by (rule set_mono_suffix)
  from * [of ws_len_rev] have "set (trim_end t) \<subseteq> set t" for t
    by (metis set_rev trim_end_def)
  then show ?thesis
    using * [of ws_len s] unfolding trim_def trim_start_def by blast
qed

lemma length_trim: "length (trim s) \<le> length s"
proof -
  have *: "length (trim_with f t) \<le> length t" for f t
    using suffix_trim_with [of f t] by (rule suffix_length_le)
  show ?thesis
    using * [of ws_len s] * [of ws_len_rev "rev (trim_with ws_len s)"]
    by (simp add: trim_def trim_start_def trim_end_def)
qed

lemma trim_Nil [simp]: "trim [] = []"
  by (simp add: trim_def trim_start_def trim_end_def trim_with.simps)

subsection \<open>Splitting and searching\<close>

text \<open>\<open>split(c)\<close> on an ASCII separator; the result is never empty.\<close>

fun split_char :: "char \<Rightarrow> string \<Rightarrow> string list" where
  "split_char c [] = [Nil]"
| "split_char c (x # xs) =
     (if x = c then [] # split_char c xs
      else case split_char c xs of [] \<Rightarrow> (x # []) # [] | w # ws \<Rightarrow> (x # w) # ws)"

lemma split_char_Cons: "c \<notin> set w \<Longrightarrow> split_char c (w @ c # s) = w # split_char c s"
  by (induction w) auto

lemma split_char_last: "c \<notin> set w \<Longrightarrow> split_char c w = [w]"
  by (induction w) auto

lemma split_char_pieces: "w \<in> set (split_char c s) \<Longrightarrow> c \<notin> set w"
  by (induction s arbitrary: w) (auto split: if_splits list.splits)

text \<open>\<open>split("\r\n")\<close>.\<close>

fun split_crlf :: "string \<Rightarrow> string list" where
  "split_crlf [] = [Nil]"
| "split_crlf (x # xs) =
     (case xs of
        y # ys \<Rightarrow>
          if x = CR \<and> y = LF then [] # split_crlf ys
          else (case split_crlf xs of [] \<Rightarrow> (x # []) # [] | w # ws \<Rightarrow> (x # w) # ws)
      | [] \<Rightarrow> (x # []) # [])"

fun split_once :: "char \<Rightarrow> string \<Rightarrow> (string \<times> string) option" where
  "split_once c [] = None"
| "split_once c (x # xs) =
     (if x = c then Some ([], xs) else map_option (\<lambda>(a, b). (x # a, b)) (split_once c xs))"

definition rsplit_once :: "char \<Rightarrow> string \<Rightarrow> (string \<times> string) option" where
  "rsplit_once c s = map_option (\<lambda>(a, b). (rev b, rev a)) (split_once c (rev s))"

definition strip_prefix :: "string \<Rightarrow> string \<Rightarrow> string option" where
  "strip_prefix p s = (if prefix p s then Some (drop (length p) s) else None)"

definition starts_with :: "string \<Rightarrow> string \<Rightarrow> bool" where
  "starts_with s p \<longleftrightarrow> prefix p s"

definition ends_with :: "string \<Rightarrow> string \<Rightarrow> bool" where
  "ends_with s p \<longleftrightarrow> suffix p s"

fun str_contains :: "string \<Rightarrow> string \<Rightarrow> bool" where
  "str_contains [] p = (p = [])"
| "str_contains (x # xs) p = (prefix p (x # xs) \<or> str_contains xs p)"

text \<open>\<open>haystack.windows(needle.len()).position(|w| w == needle)\<close>, for a non-empty needle.\<close>

fun find_subslice :: "'a list \<Rightarrow> 'a list \<Rightarrow> nat option" where
  "find_subslice [] p = None"
| "find_subslice (x # xs) p =
     (if prefix p (x # xs) then Some 0 else map_option Suc (find_subslice xs p))"

lemma find_subslice_bound: "find_subslice xs p = Some i \<Longrightarrow> i + length p \<le> length xs"
  by (induction xs arbitrary: i) (auto split: if_splits dest: prefix_length_le)

lemma find_subslice_append: "find_subslice xs p = Some i \<Longrightarrow> find_subslice (xs @ ys) p = Some i"
proof (induction xs arbitrary: i)
  case (Cons x xs)
  have "length p \<le> length (x # xs)" using find_subslice_bound [OF Cons.prems] by simp
  then have "prefix p (x # xs @ ys) \<longleftrightarrow> prefix p (x # xs)"
    using prefix_length_prefix [of p "x # xs @ ys" "x # xs"] prefix_prefix [of p "x # xs" ys] by auto
  with Cons show ?case by (auto split: if_splits)
qed simp

lemma find_subslice_at:
  "find_subslice xs p = Some i \<Longrightarrow> take (length p) (drop i xs) = p"
  by (induction xs arbitrary: i) (auto split: if_splits simp: prefix_def)

lemma find_subslice_complete:
  "i + length p \<le> length xs \<Longrightarrow> take (length p) (drop i xs) = p \<Longrightarrow> p \<noteq> [] \<Longrightarrow> find_subslice xs p \<noteq> None"
proof (induction xs arbitrary: i)
  case (Cons x xs)
  show ?case
  proof (cases i)
    case 0
    with Cons.prems have "prefix p (x # xs)" by (metis append_take_drop_id drop0 prefixI)
    then show ?thesis by simp
  next
    case (Suc j)
    with Cons show ?thesis by auto
  qed
qed simp

lemma find_subslice_later:
  assumes "find_subslice xs p = None" "find_subslice (xs @ ys) p = Some i" "p \<noteq> []"
  shows "length xs < i + length p"
proof (rule ccontr)
  assume "\<not> length xs < i + length p"
  moreover from this have "take (length p) (drop i xs) = p"
    using find_subslice_at [OF assms(2)] by simp
  ultimately show False using find_subslice_complete [of i p xs] assms by simp
qed

text \<open>\<open>split_whitespace\<close>: the non-empty runs between white-space characters.\<close>

function words_from :: "string \<Rightarrow> string \<Rightarrow> string list" where
  "words_from cur s =
     (if s = [] then (if cur = [] then [] else [rev cur])
      else if ws_len s = 0 then words_from (hd s # cur) (tl s)
      else (if cur = [] then [] else [rev cur]) @ words_from [] (drop (ws_len s) s))"
  by pat_completeness auto
termination
  by (relation "measure (\<lambda>(cur, s). length s)") auto

declare words_from.simps [simp del]

definition split_whitespace :: "string \<Rightarrow> string list" where
  "split_whitespace s = words_from [] s"

text \<open>
  \<open>str::lines\<close>: the pieces that end with a line feed, without it and without a carriage
  return before it, and the rest if it is not empty.
\<close>

fun lines_from :: "string \<Rightarrow> string \<Rightarrow> string list" where
  "lines_from cur [] = (if cur = [] then [] else [rev cur])"
| "lines_from cur (x # xs) =
     (if x = LF then rev (case cur of [] \<Rightarrow> [] | c # cs \<Rightarrow> if c = CR then cs else cur) # lines_from [] xs
      else lines_from (x # cur) xs)"

definition str_lines :: "string \<Rightarrow> string list" where
  "str_lines s = lines_from [] s"

text \<open>\<open>contains([...])\<close> and \<open>replace([...], "")\<close> for a set of ASCII characters.\<close>

definition contains_any :: "string \<Rightarrow> char list \<Rightarrow> bool" where
  "contains_any s cs \<longleftrightarrow> list_ex (\<lambda>c. c \<in> set cs) s"

definition remove_chars :: "char list \<Rightarrow> string \<Rightarrow> string" where
  "remove_chars cs s = filter (\<lambda>c. c \<notin> set cs) s"

text \<open>The bytes other than letters and digits of an HTTP token.\<close>

definition is_tchar :: "char \<Rightarrow> bool" where
  "is_tchar c \<longleftrightarrow> is_ascii_alphanumeric c \<or> c \<in> set ''!#$%&*+-.^_|~'' \<or> code c = 39 \<or> code c = 96"

lemma length_to_ascii_lowercase [simp]: "length (to_ascii_lowercase s) = length s"
  by (simp add: to_ascii_lowercase_def)

section \<open>Integers as text\<close>

text \<open>\<open>char::to_digit\<close>.\<close>

definition digit_val :: "nat \<Rightarrow> char \<Rightarrow> nat option" where
  "digit_val radix c =
     (let v = (if 48 \<le> code c \<and> code c \<le> 57 then code c - 48
               else if 97 \<le> code c \<and> code c \<le> 122 then code c - 87
               else if 65 \<le> code c \<and> code c \<le> 90 then code c - 55
               else radix)
      in if v < radix then Some v else None)"

fun digits_val :: "nat \<Rightarrow> nat \<Rightarrow> string \<Rightarrow> nat option" where
  "digits_val radix acc [] = Some acc"
| "digits_val radix acc (c # cs) =
     (case digit_val radix c of None \<Rightarrow> None | Some d \<Rightarrow> digits_val radix (acc * radix + d) cs)"

text \<open>
  \<open>from_str_radix\<close> of an unsigned type with the given greatest value, and \<open>str::parse\<close>,
  which is radix 10. One leading plus sign is accepted; an empty string, a sign alone, any
  other character and an overflow are errors.
\<close>

definition from_str_radix :: "nat \<Rightarrow> nat \<Rightarrow> string \<Rightarrow> nat option" where
  "from_str_radix radix mx s =
     (let ds = (case s of c # cs \<Rightarrow> if c = CHR ''+'' \<and> cs \<noteq> [] then cs else s | [] \<Rightarrow> s)
      in if ds = [] then None
         else case digits_val radix 0 ds of
                None \<Rightarrow> None
              | Some v \<Rightarrow> if v \<le> mx then Some v else None)"

abbreviation parse_u8 :: "string \<Rightarrow> nat option" where "parse_u8 \<equiv> from_str_radix 10 (2 ^ 8 - 1)"
abbreviation parse_u16 :: "string \<Rightarrow> nat option" where "parse_u16 \<equiv> from_str_radix 10 (2 ^ 16 - 1)"
abbreviation parse_u32 :: "string \<Rightarrow> nat option" where "parse_u32 \<equiv> from_str_radix 10 (2 ^ 32 - 1)"
abbreviation parse_u64 :: "string \<Rightarrow> nat option" where "parse_u64 \<equiv> from_str_radix 10 (2 ^ 64 - 1)"
abbreviation parse_usize :: "string \<Rightarrow> nat option" where "parse_usize \<equiv> from_str_radix 10 usize_max"

definition digit_char :: "nat \<Rightarrow> char" where
  "digit_char d = char_of (if d < 10 then 48 + d else 87 + d)"

text \<open>\<open>format!("{}")\<close> and \<open>format!("{:x}")\<close> of an unsigned integer: radix 10 and 16.\<close>

function show_radix :: "nat \<Rightarrow> nat \<Rightarrow> string" where
  "show_radix radix n =
     (if n < radix \<or> radix < 2 then [digit_char n]
      else show_radix radix (n div radix) @ [digit_char (n mod radix)])"
  by pat_completeness auto
termination
  by (relation "measure snd") auto

declare show_radix.simps [simp del]

abbreviation show_nat :: "nat \<Rightarrow> string" where "show_nat \<equiv> show_radix 10"
abbreviation show_hex :: "nat \<Rightarrow> string" where "show_hex \<equiv> show_radix 16"

lemma from_str_radix_bound: "from_str_radix radix mx s = Some v \<Longrightarrow> v \<le> mx"
  by (auto simp: from_str_radix_def Let_def split: if_splits option.splits)

lemma digits_val_append:
  "digits_val radix acc (xs @ ys) =
     (case digits_val radix acc xs of None \<Rightarrow> None | Some v \<Rightarrow> digits_val radix v ys)"
  by (induction xs arbitrary: acc) (auto split: option.splits)

lemma digit_val_digit_char:
  assumes "d < radix" "radix \<le> 16"
  shows "digit_val radix (digit_char d) = Some d"
proof -
  have "of_char (digit_char d) = (if d < 10 then 48 + d else 87 + d)"
    using assms by (auto simp: digit_char_def)
  then show ?thesis
    using assms by (auto simp: digit_val_def Let_def)
qed

lemma show_radix_ne [simp]: "show_radix radix n \<noteq> []"
  by (subst show_radix.simps) simp

lemma show_radix_digits:
  assumes "2 \<le> radix"
  shows "c \<in> set (show_radix radix n) \<Longrightarrow> \<exists>d < radix. c = digit_char d"
  using assms
proof (induction radix n rule: show_radix.induct)
  case (1 radix n)
  show ?case
  proof (cases "n < radix \<or> radix < 2")
    case True
    with 1 show ?thesis by (auto simp: show_radix.simps [of radix n])
  next
    case False
    then have "show_radix radix n = show_radix radix (n div radix) @ [digit_char (n mod radix)]"
      by (subst show_radix.simps) simp
    with 1 False show ?thesis by (auto intro: exI [of _ "n mod radix"])
  qed
qed

lemma digits_val_show:
  assumes "2 \<le> radix" "radix \<le> 16"
  shows "digits_val radix 0 (show_radix radix n) = Some n"
  using assms
proof (induction radix n rule: show_radix.induct)
  case (1 radix n)
  show ?case
  proof (cases "n < radix")
    case True
    with 1 show ?thesis by (subst show_radix.simps) (simp add: digit_val_digit_char)
  next
    case False
    have "digits_val radix 0 (show_radix radix (n div radix)) = Some (n div radix)"
      using 1 False by auto
    with 1 False show ?thesis
      by (subst show_radix.simps) (simp add: digits_val_append digit_val_digit_char)
  qed
qed

lemma digit_char_not_plus: "d < 16 \<Longrightarrow> digit_char d \<noteq> CHR ''+''"
proof
  assume d: "d < 16" and "digit_char d = CHR ''+''"
  then have "of_char (digit_char d) = (43 :: nat)" by simp
  with d show False by (auto simp: digit_char_def split: if_splits)
qed

text \<open>Printing an integer and parsing the text gives the integer back.\<close>

lemma from_str_radix_show:
  assumes "2 \<le> radix" "radix \<le> 16" "n \<le> mx"
  shows "from_str_radix radix mx (show_radix radix n) = Some n"
proof -
  obtain c cs where s: "show_radix radix n = c # cs"
    using show_radix_ne [of radix n] by (cases "show_radix radix n") auto
  then have "c \<noteq> CHR ''+''"
    using show_radix_digits [OF assms(1), of c n] assms(2) digit_char_not_plus
    by (metis list.set_intros(1) order_less_le_trans)
  then show ?thesis
    using digits_val_show [OF assms(1,2), of n] assms(3) by (simp add: from_str_radix_def s)
qed

section \<open>UTF-8\<close>

definition utf8_cont :: "u8 \<Rightarrow> bool" where
  "utf8_cont b \<longleftrightarrow> 0x80 \<le> b \<and> b \<le> 0xBF"

text \<open>
  The well-formed byte sequences of RFC 3629, which is what \<open>str::from_utf8\<close> accepts:
  no overlong forms, no surrogates, nothing above U+10FFFF.
\<close>

fun utf8_ok :: "bytes \<Rightarrow> bool" where
  "utf8_ok [] = True"
| "utf8_ok (a # r) =
     (if a < 0x80 then utf8_ok r
      else if 0xC2 \<le> a \<and> a \<le> 0xDF then
        (case r of b # r1 \<Rightarrow> utf8_cont b \<and> utf8_ok r1 | _ \<Rightarrow> False)
      else if 0xE0 \<le> a \<and> a \<le> 0xEF then
        (case r of
           b # c # r2 \<Rightarrow>
             utf8_cont b \<and> utf8_cont c \<and> (a = 0xE0 \<longrightarrow> 0xA0 \<le> b) \<and> (a = 0xED \<longrightarrow> b \<le> 0x9F)
             \<and> utf8_ok r2
         | _ \<Rightarrow> False)
      else if 0xF0 \<le> a \<and> a \<le> 0xF4 then
        (case r of
           b # c # d # r3 \<Rightarrow>
             utf8_cont b \<and> utf8_cont c \<and> utf8_cont d \<and> (a = 0xF0 \<longrightarrow> 0x90 \<le> b)
             \<and> (a = 0xF4 \<longrightarrow> b \<le> 0x8F) \<and> utf8_ok r3
         | _ \<Rightarrow> False)
      else False)"

definition byte_of_char :: "char \<Rightarrow> u8" where
  "byte_of_char c = of_nat (of_char c)"

definition char_of_byte :: "u8 \<Rightarrow> char" where
  "char_of_byte b = char_of (unat b)"

text \<open>\<open>as_bytes\<close> and \<open>from_utf8\<close>.\<close>

definition str_bytes :: "string \<Rightarrow> bytes" where
  "str_bytes s = map byte_of_char s"

definition from_utf8 :: "bytes \<Rightarrow> string option" where
  "from_utf8 bs = (if utf8_ok bs then Some (map char_of_byte bs) else None)"

text \<open>A string of the program: the type \<open>String\<close> guarantees well-formed UTF-8.\<close>

definition utf8_str :: "string \<Rightarrow> bool" where
  "utf8_str s \<longleftrightarrow> utf8_ok (str_bytes s)"

lemma char_of_byte_of_char [simp]: "char_of_byte (byte_of_char c) = c"
  by (simp add: char_of_byte_def byte_of_char_def unat_of_nat)

lemma byte_of_char_of_byte [simp]: "byte_of_char (char_of_byte b) = b"
proof -
  have "unat b < 2 ^ 8" using unsigned_less [of b, where ?'a = nat] by simp
  then show ?thesis by (simp add: char_of_byte_def byte_of_char_def)
qed

lemma length_str_bytes [simp]: "length (str_bytes s) = length s"
  by (simp add: str_bytes_def)

lemma from_utf8_str_bytes: "utf8_str s \<Longrightarrow> from_utf8 (str_bytes s) = Some s"
  by (simp add: from_utf8_def utf8_str_def str_bytes_def comp_def)

lemma str_bytes_from_utf8: "from_utf8 bs = Some s \<Longrightarrow> str_bytes s = bs \<and> utf8_str s"
  by (auto simp: from_utf8_def utf8_str_def str_bytes_def comp_def split: if_splits)

lemma utf8_str_ascii: "is_ascii s \<Longrightarrow> utf8_str s"
  unfolding utf8_str_def str_bytes_def is_ascii_def
proof (induction s)
  case (Cons c s)
  then have "byte_of_char c < 0x80"
    by (simp add: byte_of_char_def word_less_nat_alt unat_of_nat)
  with Cons show ?case by simp
qed simp

section \<open>The \<open>Read\<close> and \<open>Write\<close> traits\<close>

text \<open>
  A readable source is the script of what its next reads deliver: data, which one call
  returns up to the size of its buffer, or an error of the given kind. The end of the
  script is the end of the stream (\<open>Ok(0)\<close>).
\<close>

datatype io_kind = WouldBlock | TimedOut | UnexpectedEof | InvalidData | ConnectionRefused | OtherIo

datatype read_event = Chunk bytes | Fault io_kind

type_synonym source = "read_event list"

fun io_read :: "source \<Rightarrow> nat \<Rightarrow> (io_kind + bytes) \<times> source" where
  "io_read [] n = (Inr [], [])"
| "io_read (Fault k # es) n = (Inl k, es)"
| "io_read (Chunk bs # es) n =
     (if length bs \<le> n then (Inr bs, es) else (Inr (take n bs), Chunk (drop n bs) # es))"

lemma io_read_bound: "io_read src n = (Inr bs, src') \<Longrightarrow> length bs \<le> n"
  by (cases "(src, n)" rule: io_read.cases) (auto split: if_splits)

text \<open>
  A writable sink: the bytes written so far, the number of write calls, and which calls
  fail. \<open>write_all\<close> either appends all its bytes or fails; the source closes or abandons
  the connection after a failed write, so bytes of a partial write are not recorded.
\<close>

record sink =
  written :: bytes
  n_writes :: nat
  failing :: "nat \<Rightarrow> bool"

definition write_all :: "sink \<Rightarrow> bytes \<Rightarrow> bool \<times> sink" where
  "write_all s bs =
     (if failing s (n_writes s) then (False, s\<lparr>n_writes := Suc (n_writes s)\<rparr>)
      else (True, s\<lparr>written := written s @ bs, n_writes := Suc (n_writes s)\<rparr>))"

definition good_sink :: sink where
  "good_sink = \<lparr>written = [], n_writes = 0, failing = (\<lambda>_. False)\<rparr>"

lemma write_all_extends: "write_all s bs = (ok, s') \<Longrightarrow> \<exists>t. written s' = written s @ t"
  by (auto simp: write_all_def split: if_splits)

text \<open>A bound on the reads left, for the loops that read until the end of a source.\<close>

fun event_size :: "read_event \<Rightarrow> nat" where
  "event_size (Chunk bs) = Suc (length bs)"
| "event_size (Fault k) = 1"

abbreviation source_size :: "source \<Rightarrow> nat" where
  "source_size src \<equiv> sum_list (map event_size src)"

lemma io_read_size:
  "io_read src n = (r, src') \<Longrightarrow> src \<noteq> [] \<Longrightarrow> 0 < n \<Longrightarrow> source_size src' < source_size src"
  by (cases "(src, n)" rule: io_read.cases) (auto split: if_splits)

lemma io_read_more: "io_read src n = (Inr bs, src') \<Longrightarrow> bs \<noteq> [] \<Longrightarrow> src \<noteq> []"
  by (cases src) auto

lemma io_read_progress:
  "(Inr bs, src') = io_read src n \<Longrightarrow> bs \<noteq> [] \<Longrightarrow> 0 < n \<Longrightarrow> source_size src' < source_size src"
  using io_read_size [of src n "Inr bs" src'] io_read_more [of src n bs src'] by simp

text \<open>The bytes a source delivers before its end or its first error.\<close>

fun source_bytes :: "source \<Rightarrow> bytes" where
  "source_bytes (Chunk bs # src) = bs @ source_bytes src"
| "source_bytes _ = []"

text \<open>A source that delivers data until its end: no errors and no empty reads before it.\<close>

fun source_clean :: "source \<Rightarrow> bool" where
  "source_clean [] = True"
| "source_clean (Chunk bs # src) = (bs \<noteq> [] \<and> source_clean src)"
| "source_clean (Fault k # src) = False"

lemma io_read_clean:
  assumes "source_clean src" "0 < n" "io_read src n = (r, src')"
  shows "source_clean src' \<and> (\<exists>bs. r = Inr bs \<and> source_bytes src = bs @ source_bytes src' \<and> (bs = [] \<longleftrightarrow> src = []))"
  using assms by (cases "(src, n)" rule: io_read.cases) (auto split: if_splits)

section \<open>Association lists\<close>

definition has_key :: "('k \<times> 'v) list \<Rightarrow> 'k \<Rightarrow> bool" where
  "has_key al k \<longleftrightarrow> map_of al k \<noteq> None"

lemma has_key_iff: "has_key al k \<longleftrightarrow> k \<in> fst ` set al"
  by (simp add: has_key_def map_of_eq_None_iff)

lemma length_al_update_new:
  "k \<notin> fst ` set al \<Longrightarrow> length (AList.update k v al) = Suc (length al)"
  by (induction al) auto

lemma length_al_update_old:
  "k \<in> fst ` set al \<Longrightarrow> length (AList.update k v al) = length al"
  by (induction al) auto

lemma length_al_delete: "length (AList.delete k al) \<le> length al"
  by (simp add: AList.delete_eq)

lemma keys_al_update: "fst ` set (AList.update k v al) = insert k (fst ` set al)"
  by (simp add: dom_update)

lemma keys_al_delete: "fst ` set (AList.delete k al) = fst ` set al - {k}"
  by (auto simp: AList.delete_eq image_iff)

lemma set_al_update: "p \<in> set (AList.update k v al) \<Longrightarrow> p = (k, v) \<or> p \<in> set al"
  by (induction al) (auto split: if_splits)

lemma set_al_delete: "p \<in> set (AList.delete k al) \<Longrightarrow> p \<in> set al \<and> fst p \<noteq> k"
  by (auto simp: AList.delete_eq)

end
