(* ===== verification/H2_Frame.thy ===== *)
theory H2_Frame
  imports Prelude
begin

text \<open>
  The HTTP/2 frame layer (\<open>src/src/server/http2/frame.rs\<close>): error codes, frame types,
  setting identifiers, the 9-byte frame header, the parser of every frame type with all its
  error branches, and the encoder. The lemmas show that the numeric conversions are inverse
  to each other, that encoding a well-formed frame and parsing the bytes gives the frame
  back, and which frames the parser can return.
\<close>

section \<open>Error codes, frame types and settings\<close>

definition FRAME_HEADER_SIZE :: nat where "FRAME_HEADER_SIZE = 9"
definition DEFAULT_MAX_FRAME_SIZE :: u32 where "DEFAULT_MAX_FRAME_SIZE = 16384"
definition MAX_ALLOWED_FRAME_SIZE :: u32 where "MAX_ALLOWED_FRAME_SIZE = 16777215"

datatype http2_error_code =
    NoError | ProtocolError | InternalError | FlowControlError | SettingsTimeout | StreamClosed
  | FrameSizeError | RefusedStream | Cancel | CompressionError | ConnectError
  | EnhanceYourCalm | InadequateSecurity | Http11Required

text \<open>The cast \<open>error_code as u32\<close> (the discriminants of the enum) and \<open>from_u32\<close>.\<close>

primrec error_code_u32 :: "http2_error_code \<Rightarrow> u32" where
  "error_code_u32 NoError = 0x0"
| "error_code_u32 ProtocolError = 0x1"
| "error_code_u32 InternalError = 0x2"
| "error_code_u32 FlowControlError = 0x3"
| "error_code_u32 SettingsTimeout = 0x4"
| "error_code_u32 StreamClosed = 0x5"
| "error_code_u32 FrameSizeError = 0x6"
| "error_code_u32 RefusedStream = 0x7"
| "error_code_u32 Cancel = 0x8"
| "error_code_u32 CompressionError = 0x9"
| "error_code_u32 ConnectError = 0xa"
| "error_code_u32 EnhanceYourCalm = 0xb"
| "error_code_u32 InadequateSecurity = 0xc"
| "error_code_u32 Http11Required = 0xd"

definition from_u32 :: "u32 \<Rightarrow> http2_error_code" where
  "from_u32 val =
     (if val = 0x0 then NoError
      else if val = 0x1 then ProtocolError
      else if val = 0x2 then InternalError
      else if val = 0x3 then FlowControlError
      else if val = 0x4 then SettingsTimeout
      else if val = 0x5 then StreamClosed
      else if val = 0x6 then FrameSizeError
      else if val = 0x7 then RefusedStream
      else if val = 0x8 then Cancel
      else if val = 0x9 then CompressionError
      else if val = 0xa then ConnectError
      else if val = 0xb then EnhanceYourCalm
      else if val = 0xc then InadequateSecurity
      else if val = 0xd then Http11Required
      else ProtocolError)"

datatype frame_type =
    DataT | HeadersT | PriorityT | RstStreamT | SettingsT | PushPromiseT | PingT | GoAwayT
  | WindowUpdateT | ContinuationT | UnknownT u8

definition frame_type_from_u8 :: "u8 \<Rightarrow> frame_type" where
  "frame_type_from_u8 val =
     (if val = 0x0 then DataT
      else if val = 0x1 then HeadersT
      else if val = 0x2 then PriorityT
      else if val = 0x3 then RstStreamT
      else if val = 0x4 then SettingsT
      else if val = 0x5 then PushPromiseT
      else if val = 0x6 then PingT
      else if val = 0x7 then GoAwayT
      else if val = 0x8 then WindowUpdateT
      else if val = 0x9 then ContinuationT
      else UnknownT val)"

primrec frame_type_u8 :: "frame_type \<Rightarrow> u8" where
  "frame_type_u8 DataT = 0x0"
| "frame_type_u8 HeadersT = 0x1"
| "frame_type_u8 PriorityT = 0x2"
| "frame_type_u8 RstStreamT = 0x3"
| "frame_type_u8 SettingsT = 0x4"
| "frame_type_u8 PushPromiseT = 0x5"
| "frame_type_u8 PingT = 0x6"
| "frame_type_u8 GoAwayT = 0x7"
| "frame_type_u8 WindowUpdateT = 0x8"
| "frame_type_u8 ContinuationT = 0x9"
| "frame_type_u8 (UnknownT val) = val"

definition END_STREAM :: u8 where "END_STREAM = 0x1"
definition ACK :: u8 where "ACK = 0x1"
definition END_HEADERS :: u8 where "END_HEADERS = 0x4"
definition PADDED :: u8 where "PADDED = 0x8"
definition PRIORITY :: u8 where "PRIORITY = 0x20"

lemmas flag_defs = END_STREAM_def ACK_def END_HEADERS_def PADDED_def PRIORITY_def

datatype setting_id =
    HeaderTableSize | EnablePush | MaxConcurrentStreams | InitialWindowSize | MaxFrameSize
  | MaxHeaderListSize | UnknownSetting u16

definition setting_id_from_u16 :: "u16 \<Rightarrow> setting_id" where
  "setting_id_from_u16 val =
     (if val = 0x1 then HeaderTableSize
      else if val = 0x2 then EnablePush
      else if val = 0x3 then MaxConcurrentStreams
      else if val = 0x4 then InitialWindowSize
      else if val = 0x5 then MaxFrameSize
      else if val = 0x6 then MaxHeaderListSize
      else UnknownSetting val)"

primrec setting_id_u16 :: "setting_id \<Rightarrow> u16" where
  "setting_id_u16 HeaderTableSize = 0x1"
| "setting_id_u16 EnablePush = 0x2"
| "setting_id_u16 MaxConcurrentStreams = 0x3"
| "setting_id_u16 InitialWindowSize = 0x4"
| "setting_id_u16 MaxFrameSize = 0x5"
| "setting_id_u16 MaxHeaderListSize = 0x6"
| "setting_id_u16 (UnknownSetting val) = val"

section \<open>The frame header\<close>

record frame_header =
  fh_length :: u32
  fh_type :: frame_type
  fh_flags :: u8
  fh_stream_id :: u32

definition header_parse :: "bytes \<Rightarrow> http2_error_code + frame_header" where
  "header_parse buf =
     (if length buf < FRAME_HEADER_SIZE then Inl FrameSizeError
      else
        let len = be24 (buf ! 0) (buf ! 1) (buf ! 2);
            ft = frame_type_from_u8 (buf ! 3);
            fl = buf ! 4;
            raw_stream_id = be32 (buf ! 5) (buf ! 6) (buf ! 7) (buf ! 8);
            sid = raw_stream_id AND 0x7FFFFFFF
        in Inr \<lparr>fh_length = len, fh_type = ft, fh_flags = fl, fh_stream_id = sid\<rparr>)"

definition header_encode :: "frame_header \<Rightarrow> bytes" where
  "header_encode h =
     (let sid = fh_stream_id h AND 0x7FFFFFFF in
      [ucast (drop_bit 16 (fh_length h) AND 0xFF),
       ucast (drop_bit 8 (fh_length h) AND 0xFF),
       ucast (fh_length h AND 0xFF),
       frame_type_u8 (fh_type h),
       fh_flags h,
       ucast (drop_bit 24 sid AND 0xFF),
       ucast (drop_bit 16 sid AND 0xFF),
       ucast (drop_bit 8 sid AND 0xFF),
       ucast (sid AND 0xFF)])"

section \<open>Frame payloads\<close>

text \<open>The fields are those of the enum's variants, in the order of the source.\<close>

datatype frame_payload =
    Data bytes bool
  | Headers bytes bool bool
  | Priority u32 u8 bool
  | RstStream http2_error_code
  | Settings "(setting_id \<times> u32) list" bool
  | PushPromise u32 bytes
  | Ping bytes bool
  | GoAway u32 http2_error_code bytes
  | WindowUpdate u32
  | Continuation bytes bool
  | UnknownFrame bytes

record frame =
  fr_header :: frame_header
  fr_payload :: frame_payload

text \<open>\<open>(header.flags & flag) != 0\<close>.\<close>

definition flag_set :: "u8 \<Rightarrow> u8 \<Rightarrow> bool" where
  "flag_set fl flag \<longleftrightarrow> (fl AND flag) \<noteq> 0"

text \<open>The arms of \<open>Frame::parse\<close>, in the order of the source.\<close>

definition parse_data :: "frame_header \<Rightarrow> bytes \<Rightarrow> http2_error_code + frame_payload" where
  "parse_data h pb =
     (if fh_stream_id h = 0 then Inl ProtocolError
      else if flag_set (fh_flags h) PADDED then
        if pb = [] then Inl FrameSizeError
        else
          let pad_len = unat (pb ! 0) in
          if 1 + pad_len > length pb then Inl ProtocolError
          else Inr (Data (drop 1 (take (length pb - pad_len) pb)) (flag_set (fh_flags h) END_STREAM))
      else Inr (Data pb (flag_set (fh_flags h) END_STREAM)))"

definition parse_headers :: "frame_header \<Rightarrow> bytes \<Rightarrow> http2_error_code + frame_payload" where
  "parse_headers h pb =
     (if fh_stream_id h = 0 then Inl ProtocolError
      else if flag_set (fh_flags h) PADDED \<and> pb = [] then Inl FrameSizeError
      else
        let padded = flag_set (fh_flags h) PADDED;
            pad_len = (if padded then unat (pb ! 0) else 0);
            offset = (if padded then 1 else 0)
        in if flag_set (fh_flags h) PRIORITY \<and> length pb < offset + 5 then Inl FrameSizeError
           else
             let offset = (if flag_set (fh_flags h) PRIORITY then offset + 5 else offset) in
             if offset + pad_len > length pb then Inl ProtocolError
             else Inr (Headers (drop offset (take (length pb - pad_len) pb))
                         (flag_set (fh_flags h) END_STREAM) (flag_set (fh_flags h) END_HEADERS)))"

definition parse_priority :: "frame_header \<Rightarrow> bytes \<Rightarrow> http2_error_code + frame_payload" where
  "parse_priority h pb =
     (if fh_stream_id h = 0 then Inl ProtocolError
      else if length pb \<noteq> 5 then Inl FrameSizeError
      else
        let raw_dep = be32 (pb ! 0) (pb ! 1) (pb ! 2) (pb ! 3)
        in Inr (Priority (raw_dep AND 0x7FFFFFFF) (pb ! 4) ((raw_dep AND 0x80000000) \<noteq> 0)))"

definition parse_rst_stream :: "frame_header \<Rightarrow> bytes \<Rightarrow> http2_error_code + frame_payload" where
  "parse_rst_stream h pb =
     (if fh_stream_id h = 0 then Inl ProtocolError
      else if length pb \<noteq> 4 then Inl FrameSizeError
      else Inr (RstStream (from_u32 (be32 (pb ! 0) (pb ! 1) (pb ! 2) (pb ! 3)))))"

text \<open>The loop over \<open>payload_bytes.chunks_exact(6)\<close>; a remainder is not visited.\<close>

fun parse_setting_chunks :: "bytes \<Rightarrow> (setting_id \<times> u32) list" where
  "parse_setting_chunks (b0 # b1 # b2 # b3 # b4 # b5 # rest) =
     (setting_id_from_u16 (be16 b0 b1), be32 b2 b3 b4 b5) # parse_setting_chunks rest"
| "parse_setting_chunks _ = []"

definition parse_settings :: "frame_header \<Rightarrow> bytes \<Rightarrow> http2_error_code + frame_payload" where
  "parse_settings h pb =
     (if fh_stream_id h \<noteq> 0 then Inl ProtocolError
      else
        let ack = flag_set (fh_flags h) ACK in
        if ack \<and> pb \<noteq> [] then Inl FrameSizeError
        else if length pb mod 6 \<noteq> 0 then Inl FrameSizeError
        else Inr (Settings (parse_setting_chunks pb) ack))"

definition parse_ping :: "frame_header \<Rightarrow> bytes \<Rightarrow> http2_error_code + frame_payload" where
  "parse_ping h pb =
     (if fh_stream_id h \<noteq> 0 then Inl ProtocolError
      else if length pb \<noteq> 8 then Inl FrameSizeError
      else Inr (Ping pb (flag_set (fh_flags h) ACK)))"

definition parse_goaway :: "frame_header \<Rightarrow> bytes \<Rightarrow> http2_error_code + frame_payload" where
  "parse_goaway h pb =
     (if fh_stream_id h \<noteq> 0 then Inl ProtocolError
      else if length pb < 8 then Inl FrameSizeError
      else
        let raw_last_sid = be32 (pb ! 0) (pb ! 1) (pb ! 2) (pb ! 3);
            err_raw = be32 (pb ! 4) (pb ! 5) (pb ! 6) (pb ! 7)
        in Inr (GoAway (raw_last_sid AND 0x7FFFFFFF) (from_u32 err_raw) (drop 8 pb)))"

definition parse_window_update :: "bytes \<Rightarrow> http2_error_code + frame_payload" where
  "parse_window_update pb =
     (if length pb \<noteq> 4 then Inl FrameSizeError
      else
        let inc = be32 (pb ! 0) (pb ! 1) (pb ! 2) (pb ! 3) AND 0x7FFFFFFF in
        if inc = 0 then Inl ProtocolError else Inr (WindowUpdate inc))"

definition parse_continuation :: "frame_header \<Rightarrow> bytes \<Rightarrow> http2_error_code + frame_payload" where
  "parse_continuation h pb =
     (if fh_stream_id h = 0 then Inl ProtocolError
      else Inr (Continuation pb (flag_set (fh_flags h) END_HEADERS)))"

definition parse_payload :: "frame_header \<Rightarrow> bytes \<Rightarrow> http2_error_code + frame_payload" where
  "parse_payload h pb =
     (case fh_type h of
        DataT \<Rightarrow> parse_data h pb
      | HeadersT \<Rightarrow> parse_headers h pb
      | PriorityT \<Rightarrow> parse_priority h pb
      | RstStreamT \<Rightarrow> parse_rst_stream h pb
      | SettingsT \<Rightarrow> parse_settings h pb
      | PushPromiseT \<Rightarrow> Inl ProtocolError
      | PingT \<Rightarrow> parse_ping h pb
      | GoAwayT \<Rightarrow> parse_goaway h pb
      | WindowUpdateT \<Rightarrow> parse_window_update pb
      | ContinuationT \<Rightarrow> parse_continuation h pb
      | UnknownT _ \<Rightarrow> Inr (UnknownFrame pb))"

definition frame_parse :: "frame_header \<Rightarrow> bytes \<Rightarrow> http2_error_code + frame" where
  "frame_parse h pb =
     (if length pb \<noteq> unat (fh_length h) then Inl FrameSizeError
      else case parse_payload h pb of
             Inl e \<Rightarrow> Inl e
           | Inr p \<Rightarrow> Inr \<lparr>fr_header = h, fr_payload = p\<rparr>)"

definition encode_setting :: "setting_id \<times> u32 \<Rightarrow> bytes" where
  "encode_setting s = u16_to_be_bytes (setting_id_u16 (fst s)) @ u32_to_be_bytes (snd s)"

primrec payload_encode :: "frame_payload \<Rightarrow> bytes" where
  "payload_encode (Data d es) = d"
| "payload_encode (Headers hb es eh) = hb"
| "payload_encode (Priority dep w ex) =
     u32_to_be_bytes (if ex then dep OR 0x80000000 else dep AND 0x7FFFFFFF) @ [w]"
| "payload_encode (RstStream e) = u32_to_be_bytes (error_code_u32 e)"
| "payload_encode (Settings ss ack) = concat (map encode_setting ss)"
| "payload_encode (PushPromise sid hb) = u32_to_be_bytes (sid AND 0x7FFFFFFF) @ hb"
| "payload_encode (Ping d ack) = d"
| "payload_encode (GoAway sid e d) =
     u32_to_be_bytes (sid AND 0x7FFFFFFF) @ u32_to_be_bytes (error_code_u32 e) @ d"
| "payload_encode (WindowUpdate inc) = u32_to_be_bytes (inc AND 0x7FFFFFFF)"
| "payload_encode (Continuation hb eh) = hb"
| "payload_encode (UnknownFrame p) = p"

definition frame_encode :: "frame \<Rightarrow> bytes" where
  "frame_encode f =
     (let body = payload_encode (fr_payload f);
          h = (fr_header f)\<lparr>fh_length := of_nat (length body)\<rparr>
      in header_encode h @ body)"

section \<open>Numeric conversions\<close>

lemma from_u32_error_code [simp]: "from_u32 (error_code_u32 e) = e"
  by (cases e) (simp_all add: from_u32_def)

lemma error_code_from_u32: "v < 14 \<Longrightarrow> error_code_u32 (from_u32 v) = v"
  by (simp add: from_u32_def word_less_nat_alt word_unat_eq_iff) arith

lemma from_u32_unknown: "14 \<le> v \<Longrightarrow> from_u32 v = ProtocolError"
  by (auto simp: from_u32_def)

lemma frame_type_u8_from_u8 [simp]: "frame_type_u8 (frame_type_from_u8 v) = v"
  by (simp add: frame_type_from_u8_def)

definition canonical_type :: "frame_type \<Rightarrow> bool" where
  "canonical_type t \<longleftrightarrow> frame_type_from_u8 (frame_type_u8 t) = t"

lemma canonical_type_simps [simp]:
  "canonical_type DataT" "canonical_type HeadersT" "canonical_type PriorityT"
  "canonical_type RstStreamT" "canonical_type SettingsT" "canonical_type PushPromiseT"
  "canonical_type PingT" "canonical_type GoAwayT" "canonical_type WindowUpdateT"
  "canonical_type ContinuationT"
  by (simp_all add: canonical_type_def frame_type_from_u8_def)

lemma setting_id_u16_from_u16 [simp]: "setting_id_u16 (setting_id_from_u16 v) = v"
  by (simp add: setting_id_from_u16_def)

definition canonical_setting :: "setting_id \<Rightarrow> bool" where
  "canonical_setting i \<longleftrightarrow> setting_id_from_u16 (setting_id_u16 i) = i"

lemma canonical_setting_from_u16 [simp]: "canonical_setting (setting_id_from_u16 v)"
  by (simp add: canonical_setting_def)

lemma canonical_type_from_u8 [simp]: "canonical_type (frame_type_from_u8 v)"
  by (simp add: canonical_type_def)

section \<open>Header round trip\<close>

lemma ucast_and_ff [simp]: "(ucast (w AND 0xFF :: u32) :: u8) = ucast w"
proof (rule bit_word_eqI)
  fix n assume n: "n < LENGTH(8)"
  then have "bit (0xFF :: u32) n"
    using bit_mask_iff [of 8 n, where ?'a = u32] by (simp add: mask_eq_exp_minus_1)
  with n show "bit (ucast (w AND 0xFF :: u32) :: u8) n = bit (ucast w :: u8) n"
    by (simp add: bit_simps)
qed

lemma mask31: "(0x7FFFFFFF :: u32) = mask 31"
  by (simp add: mask_eq_exp_minus_1)

lemma and_mask31_idem [simp]: "(w AND 0x7FFFFFFF) AND 0x7FFFFFFF = (w AND 0x7FFFFFFF :: u32)"
  by (simp add: ac_simps)

lemma length_header_encode [simp]: "length (header_encode h) = FRAME_HEADER_SIZE"
  by (simp add: header_encode_def Let_def FRAME_HEADER_SIZE_def)

text \<open>The header fields that survive the wire: 24 bits of length, 31 bits of stream id.\<close>

lemma header_parse_encode:
  "header_parse (header_encode h @ rest) =
     Inr \<lparr>fh_length = take_bit 24 (fh_length h),
          fh_type = frame_type_from_u8 (frame_type_u8 (fh_type h)),
          fh_flags = fh_flags h, fh_stream_id = fh_stream_id h AND 0x7FFFFFFF\<rparr>"
proof -
  define sid where "sid = fh_stream_id h AND 0x7FFFFFFF"
  have enc: "header_encode h =
    [ucast (drop_bit 16 (fh_length h)), ucast (drop_bit 8 (fh_length h)), ucast (fh_length h),
     frame_type_u8 (fh_type h), fh_flags h,
     ucast (drop_bit 24 sid), ucast (drop_bit 16 sid), ucast (drop_bit 8 sid), ucast sid]"
    unfolding header_encode_def sid_def [symmetric] Let_def ucast_and_ff ..
  have "sid AND 0x7FFFFFFF = sid" by (simp add: sid_def)
  then show ?thesis
    unfolding enc by (simp add: header_parse_def FRAME_HEADER_SIZE_def be24_of_bytes sid_def [symmetric])
qed

lemma take_bit_be24 [simp]: "take_bit 24 (be24 a b c) = be24 a b c"
  by (rule bit_word_eqI) (auto simp: be24_def bit_simps dest: bit_imp_le_length)

lemma header_parse_total:
  "FRAME_HEADER_SIZE \<le> length buf \<Longrightarrow> \<exists>h. header_parse buf = Inr h \<and> canonical_type (fh_type h)
     \<and> fh_stream_id h AND 0x7FFFFFFF = fh_stream_id h \<and> take_bit 24 (fh_length h) = fh_length h"
  by (simp add: header_parse_def Let_def take_bit_be24)

section \<open>Frame round trip\<close>

text \<open>
  A frame that the encoder represents completely: its type and flags agree with the payload,
  the stream id is admissible for the type, the lengths fit, the fields have no reserved bit.
  Padding and priority fields are never written, so their flags must be clear.
\<close>

fun payload_fits :: "frame_header \<Rightarrow> frame_payload \<Rightarrow> bool" where
  "payload_fits h (Data d es) \<longleftrightarrow>
     fh_type h = DataT \<and> fh_stream_id h \<noteq> 0 \<and> \<not> flag_set (fh_flags h) PADDED
     \<and> es = flag_set (fh_flags h) END_STREAM"
| "payload_fits h (Headers hb es eh) \<longleftrightarrow>
     fh_type h = HeadersT \<and> fh_stream_id h \<noteq> 0 \<and> \<not> flag_set (fh_flags h) PADDED
     \<and> \<not> flag_set (fh_flags h) PRIORITY
     \<and> es = flag_set (fh_flags h) END_STREAM \<and> eh = flag_set (fh_flags h) END_HEADERS"
| "payload_fits h (Priority dep w ex) \<longleftrightarrow>
     fh_type h = PriorityT \<and> fh_stream_id h \<noteq> 0 \<and> dep AND 0x7FFFFFFF = dep"
| "payload_fits h (RstStream e) \<longleftrightarrow> fh_type h = RstStreamT \<and> fh_stream_id h \<noteq> 0"
| "payload_fits h (Settings ss ack) \<longleftrightarrow>
     fh_type h = SettingsT \<and> fh_stream_id h = 0 \<and> ack = flag_set (fh_flags h) ACK
     \<and> (ack \<longrightarrow> ss = []) \<and> list_all (\<lambda>s. canonical_setting (fst s)) ss"
| "payload_fits h (PushPromise sid hb) \<longleftrightarrow> False"
| "payload_fits h (Ping d ack) \<longleftrightarrow>
     fh_type h = PingT \<and> fh_stream_id h = 0 \<and> length d = 8 \<and> ack = flag_set (fh_flags h) ACK"
| "payload_fits h (GoAway sid e d) \<longleftrightarrow>
     fh_type h = GoAwayT \<and> fh_stream_id h = 0 \<and> sid AND 0x7FFFFFFF = sid"
| "payload_fits h (WindowUpdate inc) \<longleftrightarrow>
     fh_type h = WindowUpdateT \<and> inc AND 0x7FFFFFFF = inc \<and> inc \<noteq> 0"
| "payload_fits h (Continuation hb eh) \<longleftrightarrow>
     fh_type h = ContinuationT \<and> fh_stream_id h \<noteq> 0 \<and> eh = flag_set (fh_flags h) END_HEADERS"
| "payload_fits h (UnknownFrame p) \<longleftrightarrow> (\<exists>v. fh_type h = UnknownT v \<and> canonical_type (UnknownT v))"

definition frame_wf :: "frame \<Rightarrow> bool" where
  "frame_wf f \<longleftrightarrow>
     payload_fits (fr_header f) (fr_payload f)
     \<and> fh_stream_id (fr_header f) AND 0x7FFFFFFF = fh_stream_id (fr_header f)
     \<and> length (payload_encode (fr_payload f)) < 2 ^ 24
     \<and> fh_length (fr_header f) = of_nat (length (payload_encode (fr_payload f)))"

lemma parse_setting_chunks_encode:
  "list_all (\<lambda>s. canonical_setting (fst s)) ss \<Longrightarrow>
   parse_setting_chunks (concat (map encode_setting ss)) = ss"
  by (induction ss)
     (auto simp: encode_setting_def u16_to_be_bytes_def u32_to_be_bytes_def canonical_setting_def)

lemma parse_setting_chunks_canonical:
  "list_all (\<lambda>s. canonical_setting (fst s)) (parse_setting_chunks bs)"
  by (induction bs rule: parse_setting_chunks.induct) auto

lemma length_encode_settings: "length (concat (map encode_setting ss)) = 6 * length ss"
  by (induction ss) (simp_all add: encode_setting_def)

lemma priority_word:
  fixes dep :: u32
  assumes "dep AND 0x7FFFFFFF = dep"
  shows "(dep OR 0x80000000) AND 0x7FFFFFFF = dep" "(dep OR 0x80000000) AND 0x80000000 \<noteq> 0"
    "dep AND 0x80000000 = 0"
proof -
  have top: "(0x80000000 :: u32) = push_bit 31 1" by simp
  have "\<not> bit (dep AND mask 31) 31" by (simp add: bit_simps)
  then have low: "\<not> bit dep 31" using assms by (simp only: mask31 simp_thms)
  show "(dep OR 0x80000000) AND 0x7FFFFFFF = dep"
    by (simp add: bit.conj_disj_distrib2 assms)
  show "dep AND 0x80000000 = 0"
    unfolding top using low
    by (intro bit_word_eqI)
      (simp only: bit_and_iff bit_push_bit_iff bit_1_iff bit_0_eq bot_apply,
        auto simp: less_Suc_eq numeral_eq_Suc)
  have "bit ((dep OR 0x80000000) AND 0x80000000) 31"
    unfolding top by (simp only: bit_and_iff bit_or_iff bit_push_bit_iff bit_1_iff) simp
  then show "(dep OR 0x80000000) AND 0x80000000 \<noteq> 0"
    by (intro notI) (simp only: bit_0_eq bot_apply bot_bool_def simp_thms)
qed

lemma parse_payload_encode:
  "payload_fits h p \<Longrightarrow> parse_payload h (payload_encode p) = Inr p"
proof (induction h p rule: payload_fits.induct)
  case (5 h ss ack)
  then show ?case
    by (auto simp: parse_payload_def parse_settings_def Let_def length_encode_settings
        parse_setting_chunks_encode)
qed (auto simp: parse_payload_def parse_data_def parse_headers_def parse_priority_def
    parse_rst_stream_def parse_ping_def parse_goaway_def parse_window_update_def
    parse_continuation_def Let_def u32_to_be_bytes_def priority_word nth_append)

lemma frame_wf_length:
  assumes "frame_wf f"
  shows "take_bit 24 (fh_length (fr_header f)) = fh_length (fr_header f)"
    "unat (fh_length (fr_header f)) = length (payload_encode (fr_payload f))"
proof -
  let ?n = "length (payload_encode (fr_payload f))"
  have n: "?n < 2 ^ 24" "fh_length (fr_header f) = of_nat ?n"
    using assms by (auto simp: frame_wf_def)
  then show u: "unat (fh_length (fr_header f)) = ?n"
    by (simp add: unat_of_nat take_bit_nat_eq_self)
  have "take_bit 24 ?n = ?n" using n(1) by (rule take_bit_nat_eq_self)
  then show "take_bit 24 (fh_length (fr_header f)) = fh_length (fr_header f)"
    by (simp add: n(2) take_bit_of_nat)
qed

lemma payload_fits_type: "payload_fits h p \<Longrightarrow> canonical_type (fh_type h)"
  by (induction h p rule: payload_fits.induct) auto

text \<open>The parser only returns frames in the wire's canonical form.\<close>

lemma parse_payload_fits:
  assumes "parse_payload h pb = Inr p" "canonical_type (fh_type h)"
    "\<not> flag_set (fh_flags h) PADDED" "\<not> flag_set (fh_flags h) PRIORITY"
  shows "payload_fits h p"
  using assms
  by (cases "fh_type h")
     (auto simp: parse_payload_def parse_data_def parse_headers_def parse_priority_def
       parse_rst_stream_def parse_settings_def parse_ping_def parse_goaway_def
       parse_window_update_def parse_continuation_def Let_def parse_setting_chunks_canonical
       split: if_splits)

text \<open>
  C1. Encoding a well-formed frame and parsing the bytes, the first nine as the header and the
  rest as the payload, gives exactly the frame that was encoded.
\<close>

theorem frame_parse_encode:
  assumes "frame_wf f"
  shows "header_parse (take FRAME_HEADER_SIZE (frame_encode f)) = Inr (fr_header f)
    \<and> frame_parse (fr_header f) (drop FRAME_HEADER_SIZE (frame_encode f)) = Inr f"
proof
  have fits: "payload_fits (fr_header f) (fr_payload f)"
    and len: "fh_length (fr_header f) = of_nat (length (payload_encode (fr_payload f)))"
    and sid: "fh_stream_id (fr_header f) AND 0x7FFFFFFF = fh_stream_id (fr_header f)"
    using assms by (auto simp: frame_wf_def)
  have enc: "frame_encode f = header_encode (fr_header f) @ payload_encode (fr_payload f)"
    unfolding frame_encode_def Let_def len [symmetric] by simp
  show "header_parse (take FRAME_HEADER_SIZE (frame_encode f)) = Inr (fr_header f)"
    using header_parse_encode [of "fr_header f" Nil] payload_fits_type [OF fits] sid
      frame_wf_length [OF assms] by (simp add: enc canonical_type_def)
  show "frame_parse (fr_header f) (drop FRAME_HEADER_SIZE (frame_encode f)) = Inr f"
    using parse_payload_encode [OF fits] frame_wf_length [OF assms]
    by (simp add: enc frame_parse_def)
qed

theorem frame_parse_encode_witness:
  "let f = \<lparr>fr_header = \<lparr>fh_length = 12, fh_type = SettingsT, fh_flags = 0, fh_stream_id = 0\<rparr>,
            fr_payload = Settings [(MaxConcurrentStreams, 100), (InitialWindowSize, 65535)] False\<rparr>
   in frame_wf f
      \<and> header_parse (take FRAME_HEADER_SIZE (frame_encode f)) = Inr (fr_header f)
      \<and> frame_parse (fr_header f) (drop FRAME_HEADER_SIZE (frame_encode f)) = Inr f"
proof -
  let ?f = "\<lparr>fr_header = \<lparr>fh_length = 12, fh_type = SettingsT, fh_flags = 0, fh_stream_id = 0\<rparr>,
     fr_payload = Settings [(MaxConcurrentStreams, 100), (InitialWindowSize, 65535)] False\<rparr>"
  have "frame_wf ?f"
    by (simp add: frame_wf_def encode_setting_def flag_set_def canonical_setting_def
        setting_id_from_u16_def)
  then show ?thesis
    using frame_parse_encode [of ?f] by (simp only: Let_def simp_thms)
qed

end
