(* ===== verification/H2_Flow.thy ===== *)
theory H2_Flow
  imports H2_Frame
begin

text \<open>
  Flow-control windows (\<open>src/src/server/http2/flow.rs\<close>). A window's credit is an \<open>i32\<close>, kept
  as an \<open>int\<close> with the casts written out. The locale states the contract that the
  connection relies on; its interpretation discharges it for the code's window.
\<close>

definition MAX_WINDOW_SIZE :: u32 where "MAX_WINDOW_SIZE = 2147483647"

record window =
  available :: int

definition window_new :: "u32 \<Rightarrow> window" where
  "window_new initial_size = \<lparr>available = as_i32 (uint initial_size)\<rparr>"

definition window_update :: "window \<Rightarrow> u32 \<Rightarrow> http2_error_code + window" where
  "window_update w increment =
     (if increment = 0 then Inl ProtocolError
      else
        let new_available = available w + uint increment in
        if new_available > uint MAX_WINDOW_SIZE then Inl FlowControlError
        else Inr (w\<lparr>available := as_i32 new_available\<rparr>))"

definition window_consume :: "window \<Rightarrow> u32 \<Rightarrow> http2_error_code + window" where
  "window_consume w n =
     (if uint n > available w then Inl FlowControlError
      else Inr (w\<lparr>available := as_i32 (available w - as_i32 (uint n))\<rparr>))"

definition window_adjust :: "window \<Rightarrow> int \<Rightarrow> http2_error_code + window" where
  "window_adjust w delta =
     (let updated = available w + delta in
      if updated > uint MAX_WINDOW_SIZE \<or> updated < i32_min then Inl FlowControlError
      else Inr (w\<lparr>available := as_i32 updated\<rparr>))"

record flow_control =
  fc_connection_window :: window
  fc_initial_stream_window_size :: u32

definition flow_control_new :: "u32 \<Rightarrow> flow_control" where
  "flow_control_new initial_window_size =
     \<lparr>fc_connection_window = window_new initial_window_size,
      fc_initial_stream_window_size = initial_window_size\<rparr>"

definition update_initial_window_size :: "flow_control \<Rightarrow> u32 \<Rightarrow> http2_error_code + flow_control" where
  "update_initial_window_size fc new_size =
     (if new_size > MAX_WINDOW_SIZE then Inl FlowControlError
      else Inr (fc\<lparr>fc_initial_stream_window_size := new_size\<rparr>))"

text \<open>The type invariant: the credit is an \<open>i32\<close>.\<close>

definition window_ok :: "window \<Rightarrow> bool" where
  "window_ok w \<longleftrightarrow> i32_min \<le> available w \<and> available w \<le> i32_max"

section \<open>The contract of a window\<close>

text \<open>
  Credit can be spent exactly as far as it reaches, a grant adds exactly its amount or is
  refused because the credit would pass the limit, and a change of the initial size may
  make the credit negative.
\<close>

locale credit =
  fixes ok :: "'w \<Rightarrow> bool"
    and avail :: "'w \<Rightarrow> int"
    and spend :: "'w \<Rightarrow> u32 \<Rightarrow> 'e + 'w"
    and grant :: "'w \<Rightarrow> u32 \<Rightarrow> 'e + 'w"
    and shift :: "'w \<Rightarrow> int \<Rightarrow> 'e + 'w"
    and limit :: int
  assumes avail_limit: "ok w \<Longrightarrow> avail w \<le> limit"
    and spend_ok: "ok w \<Longrightarrow> uint n \<le> avail w \<Longrightarrow>
      \<exists>w'. spend w n = Inr w' \<and> ok w' \<and> avail w' = avail w - uint n"
    and spend_over: "avail w < uint n \<Longrightarrow> \<exists>e. spend w n = Inl e"
    and grant_sound: "ok w \<Longrightarrow> grant w n = Inr w' \<Longrightarrow>
      ok w' \<and> avail w' = avail w + uint n \<and> n \<noteq> 0"
    and grant_total: "ok w \<Longrightarrow> n \<noteq> 0 \<Longrightarrow> avail w + uint n \<le> limit \<Longrightarrow> \<exists>w'. grant w n = Inr w'"
    and shift_sound: "ok w \<Longrightarrow> shift w d = Inr w' \<Longrightarrow> ok w' \<and> avail w' = avail w + d"
begin

lemma spend_sound:
  assumes "ok w" "spend w n = Inr w'"
  shows "ok w' \<and> avail w' = avail w - uint n \<and> uint n \<le> avail w"
proof (cases "uint n \<le> avail w")
  case True
  with assms spend_ok [OF assms(1), of n] show ?thesis by auto
next
  case False
  with assms spend_over [of w n] show ?thesis by auto
qed

primrec spend_all :: "'w \<Rightarrow> u32 list \<Rightarrow> 'e + 'w" where
  "spend_all w [] = Inr w"
| "spend_all w (n # ns) = (case spend w n of Inl e \<Rightarrow> Inl e | Inr w' \<Rightarrow> spend_all w' ns)"

text \<open>A run of spends succeeds exactly when every prefix fits in the credit.\<close>

lemma spend_all_sound:
  assumes "ok w" "spend_all w ns = Inr w'"
  shows "ok w' \<and> avail w' = avail w - sum_list (map uint ns)"
  using assms
proof (induction ns arbitrary: w)
  case (Cons n ns)
  then obtain w1 where w1: "spend w n = Inr w1" "spend_all w1 ns = Inr w'"
    by (auto split: sum.splits)
  with Cons.prems spend_sound [of w n w1] have "ok w1" "avail w1 = avail w - uint n" by auto
  with Cons.IH [of w1] w1 show ?case by simp
qed simp

lemma spend_all_complete:
  assumes "ok w" "sum_list (map uint ns) \<le> avail w"
  shows "\<exists>w'. spend_all w ns = Inr w'"
  using assms
proof (induction ns arbitrary: w)
  case (Cons n ns)
  have "0 \<le> sum_list (map uint ns)" by (intro sum_list_nonneg) auto
  then have "uint n \<le> avail w" using Cons.prems by simp
  then obtain w1 where w1: "spend w n = Inr w1" "ok w1" "avail w1 = avail w - uint n"
    using spend_ok Cons.prems by blast
  then show ?case using Cons.IH [of w1] Cons.prems by simp
qed simp

end

lemma uint_MAX_WINDOW_SIZE [simp]: "uint MAX_WINDOW_SIZE = i32_max"
  by (simp add: MAX_WINDOW_SIZE_def)

lemma window_consume_exact:
  assumes "window_ok w" "uint n \<le> available w"
  shows "window_consume w n = Inr (w\<lparr>available := available w - uint n\<rparr>)"
proof -
  have "as_i32 (uint n) = uint n"
    using assms by (intro as_i32_id) (auto simp: window_ok_def intro: order_trans [OF _ uint_ge_0])
  moreover have "as_i32 (available w - uint n) = available w - uint n"
    using assms uint_ge_0 [of n] unfolding window_ok_def by (intro as_i32_id) linarith+
  ultimately show ?thesis using assms by (simp add: window_consume_def)
qed

lemma window_update_exact:
  assumes "window_ok w" "window_update w n = Inr w'"
  shows "w' = w\<lparr>available := available w + uint n\<rparr> \<and> n \<noteq> 0 \<and> available w + uint n \<le> i32_max"
proof -
  have n: "n \<noteq> 0" "available w + uint n \<le> i32_max"
    using assms(2) by (auto simp: window_update_def Let_def split: if_splits)
  moreover have "i32_min \<le> available w + uint n"
    using assms(1) uint_ge_0 [of n] unfolding window_ok_def by linarith
  ultimately show ?thesis
    using assms(2) as_i32_id [of "available w + uint n"]
    by (auto simp: window_update_def Let_def split: if_splits)
qed

lemma window_adjust_exact:
  "window_adjust w d = Inr w' \<Longrightarrow>
   w' = w\<lparr>available := available w + d\<rparr> \<and> i32_min \<le> available w + d \<and> available w + d \<le> i32_max"
  using as_i32_id [of "available w + d"]
  by (auto simp: window_adjust_def Let_def split: if_splits)

lemma window_new_ok [simp]: "window_ok (window_new n)"
  using as_i32_range [of "uint n"] by (simp add: window_new_def window_ok_def)

lemma window_new_available:
  "n \<le> MAX_WINDOW_SIZE \<Longrightarrow> available (window_new n) = uint n"
  using uint_ge_0 [of n]
  by (auto simp: window_new_def word_le_def intro!: as_i32_id intro: order_trans [OF _ uint_ge_0])

interpretation win: credit window_ok available window_consume window_update window_adjust i32_max
proof unfold_locales
  fix w :: window and n :: u32
  assume w: "window_ok w" and n: "uint n \<le> available w"
  have "window_ok (w\<lparr>available := available w - uint n\<rparr>)"
    using w n by (simp add: window_ok_def) (use uint_ge_0 [of n] in linarith)
  then show "\<exists>w'. window_consume w n = Inr w' \<and> window_ok w' \<and> available w' = available w - uint n"
    using window_consume_exact [OF w n] by simp
next
  fix w w' :: window and n :: u32
  assume w: "window_ok w" and u: "window_update w n = Inr w'"
  have "i32_min \<le> available w + uint n"
    using w uint_ge_0 [of n] unfolding window_ok_def by linarith
  then show "window_ok w' \<and> available w' = available w + uint n \<and> n \<noteq> 0"
    using window_update_exact [OF w u] by (auto simp: window_ok_def)
next
  fix w w' :: window and d
  assume "window_ok w" and "window_adjust w d = Inr w'"
  then show "window_ok w' \<and> available w' = available w + d"
    using window_adjust_exact [of w d w'] by (auto simp: window_ok_def)
qed (auto simp: window_ok_def window_consume_def window_update_def Let_def)

end
