(* ===== verification/H2_Stream.thy ===== *)
theory H2_Stream
  imports H2_Flow
begin

text \<open>
  One HTTP/2 stream (\<open>src/src/server/http2/stream.rs\<close>): its life-cycle state machine, its
  windows and its request buffers. The transitions that \<open>transition_to\<close> allows are also given
  as a step relation, for which the reachable states and termination are shown.
\<close>

datatype stream_state =
  Idle | ReservedLocal | ReservedRemote | Open | HalfClosedLocal | HalfClosedRemote | Closed

record stream =
  st_id :: u32
  st_state :: stream_state
  st_window :: window
  st_send_window :: window
  st_request_headers :: headers
  st_request_body :: bytes
  st_received_end_stream :: bool
  st_received_end_headers :: bool

definition is_client_initiated :: "u32 \<Rightarrow> bool" where
  "is_client_initiated sid \<longleftrightarrow> sid > 0 \<and> unat sid mod 2 \<noteq> 0"

definition stream_new :: "u32 \<Rightarrow> u32 \<Rightarrow> http2_error_code + stream" where
  "stream_new sid initial_window_size =
     (if sid = 0 \<or> unat sid mod 2 = 0 then Inl ProtocolError
      else Inr \<lparr>st_id = sid, st_state = Idle, st_window = window_new initial_window_size,
                st_send_window = window_new 65535, st_request_headers = [],
                st_request_body = [], st_received_end_stream = False,
                st_received_end_headers = False\<rparr>)"

fun transition_target :: "stream_state \<Rightarrow> stream_state \<Rightarrow> stream_state option" where
  "transition_target Idle Open = Some Open"
| "transition_target Idle HalfClosedRemote = Some HalfClosedRemote"
| "transition_target Open HalfClosedRemote = Some HalfClosedRemote"
| "transition_target Open HalfClosedLocal = Some HalfClosedLocal"
| "transition_target Open Closed = Some Closed"
| "transition_target HalfClosedRemote Closed = Some Closed"
| "transition_target HalfClosedLocal Closed = Some Closed"
| "transition_target Closed Closed = Some Closed"
| "transition_target _ _ = None"

definition transition_to :: "stream \<Rightarrow> stream_state \<Rightarrow> http2_error_code + stream" where
  "transition_to s target =
     (case transition_target (st_state s) target of
        Some st \<Rightarrow> Inr (s\<lparr>st_state := st\<rparr>)
      | None \<Rightarrow> Inl StreamClosed)"

definition append_request_headers :: "stream \<Rightarrow> headers \<Rightarrow> bool \<Rightarrow> stream" where
  "append_request_headers s hs end_headers =
     (let s = s\<lparr>st_request_headers := st_request_headers s @ hs\<rparr> in
      if end_headers then s\<lparr>st_received_end_headers := True\<rparr> else s)"

text \<open>The result of the transition at the end of the stream is ignored by the source.\<close>

definition append_request_data :: "stream \<Rightarrow> bytes \<Rightarrow> bool \<Rightarrow> http2_error_code + stream" where
  "append_request_data s d end_stream =
     (let s = s\<lparr>st_request_body := st_request_body s @ d\<rparr> in
      if end_stream then
        let s = s\<lparr>st_received_end_stream := True\<rparr> in
        Inr (case transition_to s HalfClosedRemote of Inl _ \<Rightarrow> s | Inr s' \<Rightarrow> s')
      else Inr s)"

section \<open>The life cycle\<close>

inductive stream_step :: "stream_state \<Rightarrow> stream_state \<Rightarrow> bool" where
  open_stream: "stream_step Idle Open"
| open_ended: "stream_step Idle HalfClosedRemote"
| remote_end: "stream_step Open HalfClosedRemote"
| local_end: "stream_step Open HalfClosedLocal"
| reset_open: "stream_step Open Closed"
| close_remote: "stream_step HalfClosedRemote Closed"
| close_local: "stream_step HalfClosedLocal Closed"

inductive_cases stream_step_Closed_elim [elim!]: "stream_step Closed t"
inductive_simps stream_step_simps:
  "stream_step Idle t" "stream_step Open t" "stream_step HalfClosedLocal t"
  "stream_step HalfClosedRemote t" "stream_step Closed t"
  "stream_step ReservedLocal t" "stream_step ReservedRemote t"

code_pred stream_step .

text \<open>\<open>transition_to\<close> takes exactly the steps of the relation, and stutters on \<open>Closed\<close>.\<close>

lemma transition_to_iff:
  "transition_to s t = Inr s' \<longleftrightarrow>
   s' = s\<lparr>st_state := t\<rparr> \<and> (stream_step (st_state s) t \<or> st_state s = Closed \<and> t = Closed)"
  by (cases "st_state s"; cases t) (auto simp: transition_to_def stream_step_simps)

lemma transition_to_err: "transition_to s t = Inl e \<Longrightarrow> e = StreamClosed"
  by (auto simp: transition_to_def split: option.splits)

lemma transition_to_Closed:
  "st_state s \<in> {Open, HalfClosedRemote, HalfClosedLocal, Closed} \<Longrightarrow>
   transition_to s Closed = Inr (s\<lparr>st_state := Closed\<rparr>)"
  by (auto simp: transition_to_iff stream_step_simps)

primrec stream_rank :: "stream_state \<Rightarrow> nat" where
  "stream_rank Idle = 3"
| "stream_rank ReservedLocal = 2"
| "stream_rank ReservedRemote = 2"
| "stream_rank Open = 2"
| "stream_rank HalfClosedLocal = 1"
| "stream_rank HalfClosedRemote = 1"
| "stream_rank Closed = 0"

lemma stream_step_rank: "stream_step s t \<Longrightarrow> stream_rank t < stream_rank s"
  by (induction rule: stream_step.induct) auto

lemma stream_steps_rank: "stream_step\<^sup>*\<^sup>* s t \<Longrightarrow> s = t \<or> stream_rank t < stream_rank s"
  by (induction rule: rtranclp_induct) (auto dest: stream_step_rank)

lemma reachable_not_reserved:
  "stream_step\<^sup>*\<^sup>* Idle t \<Longrightarrow> t \<notin> {ReservedLocal, ReservedRemote}"
  by (induction rule: rtranclp_induct) (auto elim: stream_step.cases)

lemma stream_new_iff:
  "stream_new sid n = Inr s \<Longrightarrow> is_client_initiated sid \<and> st_id s = sid \<and> st_state s = Idle"
  by (auto simp: stream_new_def is_client_initiated_def word_gt_0 split: if_splits)

lemma stream_new_total: "is_client_initiated sid \<Longrightarrow> \<exists>s. stream_new sid n = Inr s"
  by (auto simp: stream_new_def is_client_initiated_def)

lemma append_request_data_Inr:
  "\<exists>s'. append_request_data s d es = Inr s' \<and> st_request_body s' = st_request_body s @ d
     \<and> st_id s' = st_id s \<and> st_window s' = st_window s \<and> st_send_window s' = st_send_window s
     \<and> st_request_headers s' = st_request_headers s
     \<and> st_received_end_stream s' = (st_received_end_stream s \<or> es)
     \<and> (st_state s' = st_state s \<or> es \<and> st_state s' = HalfClosedRemote)"
  by (auto simp: append_request_data_def Let_def transition_to_def split: option.splits sum.splits)
     (auto elim!: transition_target.elims)

end
