(* ===== verification/Huffman.thy ===== *)
theory Huffman
  imports H2_Frame
begin

text \<open>
  The Huffman decoder of HPACK (the last part of \<open>src/src/server/http2/hpack.rs\<close>): the code
  table, the binary tree that the decoder builds in a vector of nodes, and the bit loop. The
  lemmas relate the vector to the set of code words it was built from, show that the table is
  a complete prefix-free code, and characterise exactly which byte strings decode.
\<close>

section \<open>The decoder\<close>

text \<open>The entries \<open>(symbol, code, bits)\<close> for the symbols below 128 and from 128 on.\<close>

definition HUFFMAN_SPEC_LOW :: "(u16 \<times> u32 \<times> u8) list" where
  "HUFFMAN_SPEC_LOW =
    [(0, 0x1ff8, 13), (1, 0x7fffd8, 23), (2, 0xfffffe2, 28), (3, 0xfffffe3, 28),
     (4, 0xfffffe4, 28), (5, 0xfffffe5, 28), (6, 0xfffffe6, 28), (7, 0xfffffe7, 28),
     (8, 0xfffffe8, 28), (9, 0xffffea, 24), (10, 0x3ffffffc, 30), (11, 0xfffffe9, 28),
     (12, 0xfffffea, 28), (13, 0x3ffffffd, 30), (14, 0xfffffeb, 28), (15, 0xfffffec, 28),
     (16, 0xfffffed, 28), (17, 0xfffffee, 28), (18, 0xfffffef, 28), (19, 0xffffff0, 28),
     (20, 0xffffff1, 28), (21, 0xffffff2, 28), (22, 0x3ffffffe, 30), (23, 0xffffff3, 28),
     (24, 0xffffff4, 28), (25, 0xffffff5, 28), (26, 0xffffff6, 28), (27, 0xffffff7, 28),
     (28, 0xffffff8, 28), (29, 0xffffff9, 28), (30, 0xffffffa, 28), (31, 0xffffffb, 28),
     (32, 0x14, 6), (33, 0x3f8, 10), (34, 0x3f9, 10), (35, 0xffa, 12), (36, 0x1ff9, 13),
     (37, 0x15, 6), (38, 0xf8, 8), (39, 0x7fa, 11), (40, 0x3fa, 10), (41, 0x3fb, 10),
     (42, 0xf9, 8), (43, 0x7fb, 11), (44, 0xfa, 8), (45, 0x16, 6), (46, 0x17, 6), (47, 0x18, 6),
     (48, 0x0, 5), (49, 0x1, 5), (50, 0x2, 5), (51, 0x19, 6), (52, 0x1a, 6), (53, 0x1b, 6),
     (54, 0x1c, 6), (55, 0x1d, 6), (56, 0x1e, 6), (57, 0x1f, 6), (58, 0x5c, 7), (59, 0xfb, 8),
     (60, 0x7ffc, 15), (61, 0x20, 6), (62, 0xffb, 12), (63, 0x3fc, 10), (64, 0x1ffa, 13),
     (65, 0x21, 6), (66, 0x5d, 7), (67, 0x5e, 7), (68, 0x5f, 7), (69, 0x60, 7), (70, 0x61, 7),
     (71, 0x62, 7), (72, 0x63, 7), (73, 0x64, 7), (74, 0x65, 7), (75, 0x66, 7), (76, 0x67, 7),
     (77, 0x68, 7), (78, 0x69, 7), (79, 0x6a, 7), (80, 0x6b, 7), (81, 0x6c, 7), (82, 0x6d, 7),
     (83, 0x6e, 7), (84, 0x6f, 7), (85, 0x70, 7), (86, 0x71, 7), (87, 0x72, 7), (88, 0xfc, 8),
     (89, 0x73, 7), (90, 0xfd, 8), (91, 0x1ffb, 13), (92, 0x7fff0, 19), (93, 0x1ffc, 13),
     (94, 0x3ffc, 14), (95, 0x22, 6), (96, 0x7ffd, 15), (97, 0x3, 5), (98, 0x23, 6),
     (99, 0x4, 5), (100, 0x24, 6), (101, 0x5, 5), (102, 0x25, 6), (103, 0x26, 6), (104, 0x27, 6),
     (105, 0x6, 5), (106, 0x74, 7), (107, 0x75, 7), (108, 0x28, 6), (109, 0x29, 6),
     (110, 0x2a, 6), (111, 0x7, 5), (112, 0x2b, 6), (113, 0x76, 7), (114, 0x2c, 6),
     (115, 0x8, 5), (116, 0x9, 5), (117, 0x2d, 6), (118, 0x77, 7), (119, 0x78, 7),
     (120, 0x79, 7), (121, 0x7a, 7), (122, 0x7b, 7), (123, 0x7ffe, 15), (124, 0x7fc, 11),
     (125, 0x3ffd, 14), (126, 0x1ffd, 13), (127, 0xffffffc, 28)]"

definition HUFFMAN_SPEC_HIGH :: "(u16 \<times> u32 \<times> u8) list" where
  "HUFFMAN_SPEC_HIGH =
    [(128, 0xfffe6, 20), (129, 0x3fffd2, 22), (130, 0xfffe7, 20), (131, 0xfffe8, 20),
     (132, 0x3fffd3, 22), (133, 0x3fffd4, 22), (134, 0x3fffd5, 22), (135, 0x7fffd9, 23),
     (136, 0x3fffd6, 22), (137, 0x7fffda, 23), (138, 0x7fffdb, 23), (139, 0x7fffdc, 23),
     (140, 0x7fffdd, 23), (141, 0x7fffde, 23), (142, 0xffffeb, 24), (143, 0x7fffdf, 23),
     (144, 0xffffec, 24), (145, 0xffffed, 24), (146, 0x3fffd7, 22), (147, 0x7fffe0, 23),
     (148, 0xffffee, 24), (149, 0x7fffe1, 23), (150, 0x7fffe2, 23), (151, 0x7fffe3, 23),
     (152, 0x7fffe4, 23), (153, 0x1fffdc, 21), (154, 0x3fffd8, 22), (155, 0x7fffe5, 23),
     (156, 0x3fffd9, 22), (157, 0x7fffe6, 23), (158, 0x7fffe7, 23), (159, 0xffffef, 24),
     (160, 0x3fffda, 22), (161, 0x1fffdd, 21), (162, 0xfffe9, 20), (163, 0x3fffdb, 22),
     (164, 0x3fffdc, 22), (165, 0x7fffe8, 23), (166, 0x7fffe9, 23), (167, 0x1fffde, 21),
     (168, 0x7fffea, 23), (169, 0x3fffdd, 22), (170, 0x3fffde, 22), (171, 0xfffff0, 24),
     (172, 0x1fffdf, 21), (173, 0x3fffdf, 22), (174, 0x7fffeb, 23), (175, 0x7fffec, 23),
     (176, 0x1fffe0, 21), (177, 0x1fffe1, 21), (178, 0x3fffe0, 22), (179, 0x1fffe2, 21),
     (180, 0x7fffed, 23), (181, 0x3fffe1, 22), (182, 0x7fffee, 23), (183, 0x7fffef, 23),
     (184, 0xfffea, 20), (185, 0x3fffe2, 22), (186, 0x3fffe3, 22), (187, 0x3fffe4, 22),
     (188, 0x7ffff0, 23), (189, 0x3fffe5, 22), (190, 0x3fffe6, 22), (191, 0x7ffff1, 23),
     (192, 0x3ffffe0, 26), (193, 0x3ffffe1, 26), (194, 0xfffeb, 20), (195, 0x7fff1, 19),
     (196, 0x3fffe7, 22), (197, 0x7ffff2, 23), (198, 0x3fffe8, 22), (199, 0x1ffffec, 25),
     (200, 0x3ffffe2, 26), (201, 0x3ffffe3, 26), (202, 0x3ffffe4, 26), (203, 0x7ffffde, 27),
     (204, 0x7ffffdf, 27), (205, 0x3ffffe5, 26), (206, 0xfffff1, 24), (207, 0x1ffffed, 25),
     (208, 0x7fff2, 19), (209, 0x1fffe3, 21), (210, 0x3ffffe6, 26), (211, 0x7ffffe0, 27),
     (212, 0x7ffffe1, 27), (213, 0x3ffffe7, 26), (214, 0x7ffffe2, 27), (215, 0xfffff2, 24),
     (216, 0x1fffe4, 21), (217, 0x1fffe5, 21), (218, 0x3ffffe8, 26), (219, 0x3ffffe9, 26),
     (220, 0xffffffd, 28), (221, 0x7ffffe3, 27), (222, 0x7ffffe4, 27), (223, 0x7ffffe5, 27),
     (224, 0xfffec, 20), (225, 0xfffff3, 24), (226, 0xfffed, 20), (227, 0x1fffe6, 21),
     (228, 0x3fffe9, 22), (229, 0x1fffe7, 21), (230, 0x1fffe8, 21), (231, 0x7ffff3, 23),
     (232, 0x3fffea, 22), (233, 0x3fffeb, 22), (234, 0x1ffffee, 25), (235, 0x1ffffef, 25),
     (236, 0xfffff4, 24), (237, 0xfffff5, 24), (238, 0x3ffffea, 26), (239, 0x7ffff4, 23),
     (240, 0x3ffffeb, 26), (241, 0x7ffffe6, 27), (242, 0x3ffffec, 26), (243, 0x3ffffed, 26),
     (244, 0x7ffffe7, 27), (245, 0x7ffffe8, 27), (246, 0x7ffffe9, 27), (247, 0x7ffffea, 27),
     (248, 0x7ffffeb, 27), (249, 0xffffffe, 28), (250, 0x7ffffec, 27), (251, 0x7ffffed, 27),
     (252, 0x7ffffee, 27), (253, 0x7ffffef, 27), (254, 0x7fffff0, 27), (255, 0x3ffffee, 26),
     (256, 0x3fffffff, 30)]"

definition HUFFMAN_SPEC :: "(u16 \<times> u32 \<times> u8) list" where
  "HUFFMAN_SPEC = HUFFMAN_SPEC_LOW @ HUFFMAN_SPEC_HIGH"

record node =
  nd_symbol :: "u16 option"
  nd_left :: "nat option"
  nd_right :: "nat option"

definition node_default :: node where
  "node_default = \<lparr>nd_symbol = None, nd_left = None, nd_right = None\<rparr>"

text \<open>The bits of a code word or byte from the most significant: \<open>(code >> i) & 1\<close>.\<close>

definition code_bits :: "u32 \<Rightarrow> u8 \<Rightarrow> bool list" where
  "code_bits c n = map (\<lambda>i. (drop_bit i c AND 1) \<noteq> 0) (rev [0..<unat n])"

definition byte_bits :: "u8 \<Rightarrow> bool list" where
  "byte_bits b = map (\<lambda>i. (drop_bit i b AND 1) \<noteq> 0) (rev [0..<8])"

definition node_child :: "node list \<Rightarrow> nat \<Rightarrow> bool \<Rightarrow> nat option" where
  "node_child nodes cur b = (if b then nd_right (nodes ! cur) else nd_left (nodes ! cur))"

definition set_child :: "bool \<Rightarrow> nat \<Rightarrow> node \<Rightarrow> node" where
  "set_child b i nd = (if b then nd\<lparr>nd_right := Some i\<rparr> else nd\<lparr>nd_left := Some i\<rparr>)"

text \<open>The inner loop of the tree construction: from \<open>cur\<close> along the bits, adding nodes.\<close>

fun insert_path :: "node list \<Rightarrow> nat \<Rightarrow> bool list \<Rightarrow> node list \<times> nat" where
  "insert_path nodes cur [] = (nodes, cur)"
| "insert_path nodes cur (b # bs) =
     (case node_child nodes cur b of
        Some idx \<Rightarrow> insert_path nodes idx bs
      | None \<Rightarrow>
          let new_idx = length nodes;
              nodes = nodes @ [node_default];
              nodes = nodes[cur := set_child b new_idx (nodes ! cur)]
          in insert_path nodes new_idx bs)"

definition insert_code :: "node list \<Rightarrow> u16 \<Rightarrow> bool list \<Rightarrow> node list" where
  "insert_code nodes sy bs =
     (let (nodes, cur) = insert_path nodes 0 bs
      in nodes[cur := (nodes ! cur)\<lparr>nd_symbol := Some sy\<rparr>])"

definition build_tree :: "(u16 \<times> u32 \<times> u8) list \<Rightarrow> node list" where
  "build_tree spec =
     foldl (\<lambda>nodes (sy, c, n). insert_code nodes sy (code_bits c n)) [node_default] spec"

record huff_state =
  hs_decoded :: bytes
  hs_curr :: nat
  hs_bits_since_symbol :: nat
  hs_trailing_ones :: bool

definition huff_step :: "node list \<Rightarrow> huff_state \<Rightarrow> bool \<Rightarrow> http2_error_code + huff_state" where
  "huff_step nodes s b =
     (case node_child nodes (hs_curr s) b of
        None \<Rightarrow> Inl CompressionError
      | Some idx \<Rightarrow>
          let s = s\<lparr>hs_curr := idx, hs_bits_since_symbol := hs_bits_since_symbol s + 1,
                    hs_trailing_ones := (hs_trailing_ones s \<and> b)\<rparr>
          in case nd_symbol (nodes ! idx) of
               None \<Rightarrow> Inr s
             | Some sy \<Rightarrow>
                 if sy = 256 then Inl CompressionError
                 else Inr (s\<lparr>hs_decoded := hs_decoded s @ [ucast sy], hs_curr := 0,
                             hs_bits_since_symbol := 0, hs_trailing_ones := True\<rparr>))"

fun huff_loop :: "node list \<Rightarrow> huff_state \<Rightarrow> bool list \<Rightarrow> http2_error_code + huff_state" where
  "huff_loop nodes s [] = Inr s"
| "huff_loop nodes s (b # bs) =
     (case huff_step nodes s b of Inl e \<Rightarrow> Inl e | Inr s' \<Rightarrow> huff_loop nodes s' bs)"

definition huff_start :: huff_state where
  "huff_start = \<lparr>hs_decoded = [], hs_curr = 0, hs_bits_since_symbol = 0, hs_trailing_ones = True\<rparr>"

definition decode_huffman :: "bytes \<Rightarrow> http2_error_code + string" where
  "decode_huffman bs =
     (case huff_loop (build_tree HUFFMAN_SPEC) huff_start (concat (map byte_bits bs)) of
        Inl e \<Rightarrow> Inl e
      | Inr s \<Rightarrow>
          if hs_curr s \<noteq> 0 \<and> (hs_bits_since_symbol s > 7 \<or> \<not> hs_trailing_ones s)
          then Inl CompressionError
          else case from_utf8 (hs_decoded s) of
                 None \<Rightarrow> Inl CompressionError
               | Some str \<Rightarrow> Inr str)"

section \<open>The vector of nodes as a tree\<close>

fun walk :: "node list \<Rightarrow> nat \<Rightarrow> bool list \<Rightarrow> nat option" where
  "walk nodes i [] = Some i"
| "walk nodes i (b # bs) =
     (case node_child nodes i b of None \<Rightarrow> None | Some j \<Rightarrow> walk nodes j bs)"

definition arena_ok :: "node list \<Rightarrow> bool" where
  "arena_ok nodes \<longleftrightarrow>
     nodes \<noteq> []
     \<and> (\<forall>i b j. i < length nodes \<longrightarrow> node_child nodes i b = Some j \<longrightarrow> i < j \<and> j < length nodes)
     \<and> (\<forall>i b i' b' j. i < length nodes \<longrightarrow> i' < length nodes \<longrightarrow>
          node_child nodes i b = Some j \<longrightarrow> node_child nodes i' b' = Some j \<longrightarrow> i = i' \<and> b = b')"

definition sym_at :: "node list \<Rightarrow> bool list \<Rightarrow> u16 option" where
  "sym_at nodes q = (case walk nodes 0 q of None \<Rightarrow> None | Some j \<Rightarrow> nd_symbol (nodes ! j))"

lemma walk_append:
  "walk nodes i (p @ q) = (case walk nodes i p of None \<Rightarrow> None | Some j \<Rightarrow> walk nodes j q)"
  by (induction p arbitrary: i) (auto split: option.splits)

lemma arena_child:
  "arena_ok nodes \<Longrightarrow> i < length nodes \<Longrightarrow> node_child nodes i b = Some j \<Longrightarrow> i < j \<and> j < length nodes"
  unfolding arena_ok_def by blast

lemma arena_ne:
  assumes "arena_ok nodes"
  shows "0 < length nodes"
proof -
  have "nodes \<noteq> []" using assms unfolding arena_ok_def by (elim conjE)
  then show ?thesis by simp
qed

lemma arena_inj:
  "arena_ok nodes \<Longrightarrow> i < length nodes \<Longrightarrow> i' < length nodes \<Longrightarrow> node_child nodes i b = Some j \<Longrightarrow>
   node_child nodes i' b' = Some j \<Longrightarrow> i = i' \<and> b = b'"
  unfolding arena_ok_def by blast

lemma walk_bound:
  "arena_ok nodes \<Longrightarrow> i < length nodes \<Longrightarrow> walk nodes i p = Some j \<Longrightarrow> i \<le> j \<and> j < length nodes"
proof (induction p arbitrary: i)
  case (Cons b p)
  then obtain k where k: "node_child nodes i b = Some k" "walk nodes k p = Some j"
    by (auto split: option.splits)
  with Cons.IH [of k] Cons.prems arena_child [of nodes i b k] show ?case by auto
qed auto

lemma walk0_bound: "arena_ok nodes \<Longrightarrow> walk nodes 0 p = Some j \<Longrightarrow> j < length nodes"
  using walk_bound [of nodes 0 p j] arena_ne [of nodes] by blast

lemma walk_snoc:
  "walk nodes i (p @ [b]) = Some j \<longleftrightarrow> (\<exists>k. walk nodes i p = Some k \<and> node_child nodes k b = Some j)"
  by (auto simp: walk_append split: option.splits)

text \<open>Different paths lead to different nodes.\<close>

lemma walk_root:
  assumes "arena_ok nodes" "walk nodes 0 q = Some 0"
  shows "q = []"
proof (cases q rule: rev_cases)
  case (snoc p b)
  then obtain k where "walk nodes 0 p = Some k" "node_child nodes k b = Some 0"
    using assms(2) walk_snoc by blast
  then show ?thesis
    using walk0_bound [OF assms(1)] arena_child [OF assms(1), of k b 0] by blast
qed

lemma walk_inj:
  assumes ok: "arena_ok nodes"
  shows "walk nodes 0 p = Some i \<Longrightarrow> walk nodes 0 q = Some i \<Longrightarrow> p = q"
proof (induction p arbitrary: q i rule: rev_induct)
  case Nil
  then have "walk nodes 0 q = Some 0" by simp
  then show ?case using walk_root [OF ok] by blast
next
  case (snoc b p)
  then obtain k where k: "walk nodes 0 p = Some k" "node_child nodes k b = Some i"
    using walk_snoc by blast
  have "0 < i" using arena_child [OF ok walk0_bound [OF ok k(1)] k(2)] by simp
  then obtain q' b' where q: "q = q' @ [b']"
    using snoc.prems(2) by (cases q rule: rev_cases) auto
  then obtain k' where k': "walk nodes 0 q' = Some k'" "node_child nodes k' b' = Some i"
    using snoc.prems(2) walk_snoc by blast
  then have "k = k' \<and> b = b'"
    using arena_inj [OF ok walk0_bound [OF ok k(1)] walk0_bound [OF ok k'(1)] k(2) k'(2)] by blast
  then show ?case using snoc.IH [OF k(1)] k'(1) q by simp
qed

section \<open>Adding a code word\<close>

definition add_child :: "node list \<Rightarrow> nat \<Rightarrow> bool \<Rightarrow> node list" where
  "add_child nodes cur b =
     (nodes @ [node_default])[cur := set_child b (length nodes) ((nodes @ [node_default]) ! cur)]"

lemma insert_path_Cons:
  "insert_path nodes cur (b # bs) =
     (case node_child nodes cur b of
        Some idx \<Rightarrow> insert_path nodes idx bs
      | None \<Rightarrow> insert_path (add_child nodes cur b) (length nodes) bs)"
  by (simp add: add_child_def Let_def split: option.splits)

lemma length_add_child [simp]: "length (add_child nodes cur b) = Suc (length nodes)"
  by (simp add: add_child_def)

lemma child_add_child:
  assumes "cur < length nodes" "i < Suc (length nodes)" "node_child nodes cur b = None"
  shows "node_child (add_child nodes cur b) i b' =
     (if i = cur \<and> b' = b then Some (length nodes)
      else if i < length nodes then node_child nodes i b' else None)"
  using assms
  by (auto simp: add_child_def node_child_def set_child_def node_default_def nth_append
      nth_list_update split: if_splits)

lemma symbol_add_child:
  assumes "cur < length nodes" "i < Suc (length nodes)"
  shows "nd_symbol (add_child nodes cur b ! i) =
     (if i < length nodes then nd_symbol (nodes ! i) else None)"
  using assms
  by (auto simp: add_child_def set_child_def node_default_def nth_append nth_list_update)

lemma arena_add_child:
  assumes ok: "arena_ok nodes" and cur: "cur < length nodes" and none: "node_child nodes cur b = None"
  shows "arena_ok (add_child nodes cur b)"
  unfolding arena_ok_def length_add_child
proof (intro conjI allI impI)
  show "add_child nodes cur b \<noteq> []" by (simp add: add_child_def)
next
  fix i x j
  assume "i < Suc (length nodes)" "node_child (add_child nodes cur b) i x = Some j"
  then show "i < j" "j < Suc (length nodes)"
    using cur arena_child [OF ok, of i x j]
    by (auto simp: child_add_child [OF cur _ none] split: if_splits)
next
  fix i x i' x' j
  assume i: "i < Suc (length nodes)" "i' < Suc (length nodes)"
    and c: "node_child (add_child nodes cur b) i x = Some j"
      "node_child (add_child nodes cur b) i' x' = Some j"
  have "j = length nodes \<and> i = cur \<and> x = b \<or> i < length nodes \<and> node_child nodes i x = Some j"
    "j = length nodes \<and> i' = cur \<and> x' = b \<or> i' < length nodes \<and> node_child nodes i' x' = Some j"
    using i c by (auto simp: child_add_child [OF cur _ none] split: if_splits)
  then show "i = i'" "x = x'"
    using arena_child [OF ok, of i x j] arena_child [OF ok, of i' x' j] arena_inj [OF ok, of i i' x j x']
    by auto
qed

lemma walk_add_child_old:
  assumes "arena_ok nodes" "cur < length nodes" "node_child nodes cur b = None"
  shows "i < length nodes \<Longrightarrow> walk nodes i q = Some j \<Longrightarrow> walk (add_child nodes cur b) i q = Some j"
proof (induction q arbitrary: i)
  case (Cons x q)
  then obtain k where k: "node_child nodes i x = Some k" "walk nodes k q = Some j"
    by (auto split: option.splits)
  then have "node_child (add_child nodes cur b) i x = Some k"
    using Cons.prems(1) assms(3) by (auto simp: child_add_child [OF assms(2) _ assms(3)])
  with Cons.IH [of k] k arena_child [OF assms(1) Cons.prems(1) k(1)] show ?case by simp
qed simp

lemma walk_add_child_new:
  assumes "arena_ok nodes" "cur < length nodes" "node_child nodes cur b = None"
  shows "i < length nodes \<Longrightarrow> walk (add_child nodes cur b) i q = Some j \<Longrightarrow>
    walk nodes i q = Some j \<or>
    walk nodes i q = None \<and> j = length nodes \<and> (\<exists>q'. q = q' @ [b] \<and> walk nodes i q' = Some cur)"
proof (induction q arbitrary: j rule: rev_induct)
  case (snoc x q)
  then obtain k where k: "walk (add_child nodes cur b) i q = Some k"
    "node_child (add_child nodes cur b) k x = Some j" by (auto simp: walk_snoc)
  have kb: "k < Suc (length nodes)"
    using walk_bound [OF arena_add_child [OF assms] _ k(1)] snoc.prems(1) by simp
  from snoc.IH [OF snoc.prems(1) k(1)] show ?case
  proof
    assume w: "walk nodes i q = Some k"
    then show ?thesis
      using k(2) assms(3) kb walk_bound [OF assms(1) snoc.prems(1) w]
      by (auto simp: child_add_child [OF assms(2) kb assms(3)] walk_append split: if_splits)
  next
    assume "walk nodes i q = None \<and> k = length nodes \<and> (\<exists>q'. q = q' @ [b] \<and> walk nodes i q' = Some cur)"
    then show ?thesis
      using k(2) assms(2) child_add_child [OF assms(2) _ assms(3), of "length nodes" x] by auto
  qed
qed simp

text \<open>What inserting along a path keeps and adds.\<close>

definition extends :: "node list \<Rightarrow> node list \<Rightarrow> bool list \<Rightarrow> bool" where
  "extends nodes nodes' path \<longleftrightarrow>
     length nodes \<le> length nodes'
     \<and> (\<forall>j < length nodes. nd_symbol (nodes' ! j) = nd_symbol (nodes ! j))
     \<and> (\<forall>q j. walk nodes 0 q = Some j \<longrightarrow> walk nodes' 0 q = Some j)
     \<and> (\<forall>q j. walk nodes' 0 q = Some j \<longrightarrow>
          walk nodes 0 q = Some j \<or> prefix q path \<and> nd_symbol (nodes' ! j) = None)"

lemma extends_refl: "extends nodes nodes path"
  unfolding extends_def by blast

lemma extendsD:
  assumes "extends nodes nodes' path"
  shows "length nodes \<le> length nodes'"
    "j < length nodes \<Longrightarrow> nd_symbol (nodes' ! j) = nd_symbol (nodes ! j)"
    "walk nodes 0 q = Some j \<Longrightarrow> walk nodes' 0 q = Some j"
    "walk nodes' 0 q = Some j \<Longrightarrow>
       walk nodes 0 q = Some j \<or> prefix q path \<and> nd_symbol (nodes' ! j) = None"
  using assms unfolding extends_def by blast+

lemma extends_trans:
  assumes "arena_ok b" "extends a b path" "extends b c path"
  shows "extends a c path"
  unfolding extends_def
proof (intro conjI allI impI)
  fix q j
  assume "walk c 0 q = Some j"
  from extendsD(4) [OF assms(3) this]
  show "walk a 0 q = Some j \<or> prefix q path \<and> nd_symbol (c ! j) = None"
  proof
    assume w: "walk b 0 q = Some j"
    then have "nd_symbol (c ! j) = nd_symbol (b ! j)"
      using extendsD(2) [OF assms(3)] walk0_bound [OF assms(1)] by blast
    then show ?thesis using extendsD(4) [OF assms(2) w] by simp
  qed blast
next
  fix j assume j: "j < length a"
  then have "j < length b" using extendsD(1) [OF assms(2)] by simp
  then show "nd_symbol (c ! j) = nd_symbol (a ! j)"
    using extendsD(2) [OF assms(3)] extendsD(2) [OF assms(2) j] by simp
next
  fix q j assume "walk a 0 q = Some j"
  then show "walk c 0 q = Some j" using extendsD(3) [OF assms(2)] extendsD(3) [OF assms(3)] by blast
qed (use extendsD(1) [OF assms(2)] extendsD(1) [OF assms(3)] in linarith)

lemma extends_add_child:
  assumes "arena_ok nodes" "walk nodes 0 p = Some cur" "node_child nodes cur b = None"
    "prefix (p @ [b]) path"
  shows "extends nodes (add_child nodes cur b) path"
  unfolding extends_def
proof (intro conjI allI impI)
  note cur = walk0_bound [OF assms(1,2)] and zero = arena_ne [OF assms(1)]
  { fix q j assume "walk nodes 0 q = Some j"
    then show "walk (add_child nodes cur b) 0 q = Some j"
      by (rule walk_add_child_old [OF assms(1) cur assms(3) zero]) }
  fix q j assume "walk (add_child nodes cur b) 0 q = Some j"
  from walk_add_child_new [OF assms(1) cur assms(3) zero this]
  show "walk nodes 0 q = Some j \<or> prefix q path \<and> nd_symbol (add_child nodes cur b ! j) = None"
  proof
    assume n: "walk nodes 0 q = None \<and> j = length nodes
      \<and> (\<exists>q'. q = q' @ [b] \<and> walk nodes 0 q' = Some cur)"
    then obtain q' where "q = q' @ [b]" "walk nodes 0 q' = Some cur" by blast
    moreover from this(2) have "q' = p" by (rule walk_inj [OF assms(1) _ assms(2)])
    ultimately show ?thesis using n assms(4) symbol_add_child [OF cur, of "length nodes" b] by simp
  qed blast
next
  fix j assume "j < length nodes"
  then show "nd_symbol (add_child nodes cur b ! j) = nd_symbol (nodes ! j)"
    using symbol_add_child [OF walk0_bound [OF assms(1,2)], of j b] by simp
qed simp

lemma insert_path_spec:
  assumes "arena_ok nodes" "walk nodes 0 p = Some cur" "insert_path nodes cur bs = (nodes', i)"
    "prefix (p @ bs) path"
  shows "arena_ok nodes' \<and> walk nodes' 0 (p @ bs) = Some i \<and> extends nodes nodes' path"
  using assms
proof (induction bs arbitrary: nodes p cur)
  case Nil
  then show ?case by (simp add: extends_refl)
next
  case (Cons b bs)
  have pre: "prefix ((p @ [b]) @ bs) path" using Cons.prems(4) by simp
  show ?case
  proof (cases "node_child nodes cur b")
    case (Some idx)
    then have "walk nodes 0 (p @ [b]) = Some idx"
      using Cons.prems(2) walk_snoc by blast
    moreover have "insert_path nodes idx bs = (nodes', i)"
      using Cons.prems(3) Some unfolding insert_path_Cons by simp
    ultimately show ?thesis using Cons.IH [OF Cons.prems(1) _ _ pre] by simp
  next
    case None
    let ?n1 = "add_child nodes cur b"
    note cur = walk0_bound [OF Cons.prems(1,2)]
    have ext: "extends nodes ?n1 path"
      using extends_add_child [OF Cons.prems(1,2) None] append_prefixD [OF pre] by blast
    have ok: "arena_ok ?n1" by (rule arena_add_child [OF Cons.prems(1) cur None])
    have "walk ?n1 0 p = Some cur" by (rule extendsD(3) [OF ext Cons.prems(2)])
    moreover have "node_child ?n1 cur b = Some (length nodes)"
      using child_add_child [OF cur _ None, of cur b] cur by simp
    ultimately have w: "walk ?n1 0 (p @ [b]) = Some (length nodes)" using walk_snoc by blast
    have "insert_path ?n1 (length nodes) bs = (nodes', i)"
      using Cons.prems(3) None unfolding insert_path_Cons by simp
    from Cons.IH [OF ok w this pre] extends_trans [OF ok ext] show ?thesis by simp
  qed
qed

lemma child_set_symbol [simp]:
  "node_child (nodes[i := (nodes ! i)\<lparr>nd_symbol := x\<rparr>]) k b = node_child nodes k b"
  by (cases "i < length nodes"; cases "k = i") (auto simp: node_child_def list_update_beyond)

lemma walk_set_symbol [simp]:
  "walk (nodes[i := (nodes ! i)\<lparr>nd_symbol := x\<rparr>]) k q = walk nodes k q"
  by (induction q arbitrary: k) (auto split: option.splits)

lemma arena_set_symbol [simp]:
  "arena_ok (nodes[i := (nodes ! i)\<lparr>nd_symbol := x\<rparr>]) = arena_ok nodes"
  unfolding arena_ok_def length_list_update child_set_symbol list_update_nonempty ..

lemma insert_code_spec:
  assumes ok: "arena_ok nodes"
  shows "arena_ok (insert_code nodes sy c)"
    and "sym_at (insert_code nodes sy c) q = (if q = c then Some sy else sym_at nodes q)"
    and "walk (insert_code nodes sy c) 0 q \<noteq> None \<longleftrightarrow> walk nodes 0 q \<noteq> None \<or> prefix q c"
proof -
  obtain n1 i where n1: "insert_path nodes 0 c = (n1, i)" by fastforce
  then have spec: "arena_ok n1" "walk n1 0 c = Some i" "extends nodes n1 c"
    using insert_path_spec [OF ok, of "[]" 0 c n1 i c] by simp_all
  have ins: "insert_code nodes sy c = n1[i := (n1 ! i)\<lparr>nd_symbol := Some sy\<rparr>]"
    by (simp add: insert_code_def n1)
  then show "arena_ok (insert_code nodes sy c)" by (simp add: spec(1))
  have w: "walk (insert_code nodes sy c) 0 q = walk n1 0 q" for q by (simp add: ins)
  have pre: "walk n1 0 q \<noteq> None" if "prefix q c"
    using that spec(2) by (auto simp: prefix_def walk_append split: option.splits)
  show "walk (insert_code nodes sy c) 0 q \<noteq> None \<longleftrightarrow> walk nodes 0 q \<noteq> None \<or> prefix q c"
    using pre extendsD(3) [OF spec(3), of q] extendsD(4) [OF spec(3), of q]
    unfolding w by (cases "walk n1 0 q"; cases "walk nodes 0 q") auto
  show "sym_at (insert_code nodes sy c) q = (if q = c then Some sy else sym_at nodes q)"
  proof (cases "walk n1 0 q")
    case None
    then show ?thesis
      using pre extendsD(3) [OF spec(3), of q] by (auto simp: sym_at_def w split: option.splits)
  next
    case (Some j)
    have "j \<noteq> i" if "q \<noteq> c" using walk_inj [OF spec(1) Some] spec(2) that by blast
    moreover have "j = i" if "q = c" using Some spec(2) that by simp
    moreover have "nd_symbol (n1 ! j) = sym_at nodes q"
      using extendsD(4) [OF spec(3) Some] extendsD(3) [OF spec(3), of q]
        extendsD(2) [OF spec(3), of j] walk0_bound [OF ok, of q j] Some
      by (cases "walk nodes 0 q") (auto simp: sym_at_def)
    ultimately show ?thesis
      using walk0_bound [OF spec(1) Some] Some by (cases "q = c") (auto simp: sym_at_def w ins)
  qed
qed

text \<open>The tree built from a table knows exactly the table's code words.\<close>

definition spec_codes :: "(u16 \<times> u32 \<times> u8) list \<Rightarrow> (bool list \<times> u16) list" where
  "spec_codes spec = map (\<lambda>(sy, c, n). (code_bits c n, sy)) spec"

lemma symbol_initial [simp]: "nd_symbol node_default = None"
  by (simp add: node_default_def)

lemma arena_initial: "arena_ok [node_default]"
  by (auto simp: arena_ok_def node_child_def node_default_def)

lemma walk_initial: "walk [node_default] 0 q = (if q = [] then Some 0 else None)"
  by (cases q) (auto simp: node_child_def node_default_def)

lemma build_tree_spec:
  "arena_ok (build_tree spec)
   \<and> (\<forall>q. sym_at (build_tree spec) q = map_of (rev (spec_codes spec)) q)
   \<and> (\<forall>q. walk (build_tree spec) 0 q \<noteq> None \<longleftrightarrow> q = [] \<or> (\<exists>c \<in> fst ` set (spec_codes spec). prefix q c))"
proof (induction spec rule: rev_induct)
  case Nil
  show ?case
    by (auto simp: build_tree_def spec_codes_def arena_initial sym_at_def walk_initial)
next
  case (snoc e spec)
  obtain sy c n where e: "e = (sy, c, n)" by (cases e)
  let ?t = "build_tree spec"
  have b: "build_tree (spec @ [e]) = insert_code ?t sy (code_bits c n)"
    by (simp add: build_tree_def e)
  have ok: "arena_ok ?t" using snoc by blast
  show ?case
    unfolding b insert_code_spec(2,3) [OF ok]
    using snoc insert_code_spec(1) [OF ok] by (auto simp: spec_codes_def e)
qed

section \<open>Decoding a prefix code\<close>

text \<open>
  What the bit loop needs of a tree: it holds the words of a code, no word is a prefix of
  another, and the empty word is not in the code. Under this contract the loop splits its
  input into code words in the only possible way.
\<close>

locale code_tree =
  fixes nodes :: "node list" and word :: "bool list \<Rightarrow> u16 option"
  assumes symbol: "sym_at nodes q = word q"
    and reach: "walk nodes 0 q \<noteq> None \<longleftrightarrow> q = [] \<or> (\<exists>c. word c \<noteq> None \<and> prefix q c)"
    and prefix_free: "word a \<noteq> None \<Longrightarrow> word b \<noteq> None \<Longrightarrow> prefix a b \<Longrightarrow> a = b"
    and no_empty_word: "word [] = None"
begin

definition on_path :: "bool list \<Rightarrow> huff_state \<Rightarrow> bool" where
  "on_path p s \<longleftrightarrow> walk nodes 0 p = Some (hs_curr s) \<and> hs_bits_since_symbol s = length p
     \<and> hs_trailing_ones s = list_all (\<lambda>b. b) p"

lemma step_on_path:
  assumes "on_path p s"
  shows "huff_step nodes s b =
     (case walk nodes 0 (p @ [b]) of
        None \<Rightarrow> Inl CompressionError
      | Some j \<Rightarrow>
          (case word (p @ [b]) of
             None \<Rightarrow> Inr (s\<lparr>hs_curr := j, hs_bits_since_symbol := length (p @ [b]),
                           hs_trailing_ones := list_all (\<lambda>b. b) (p @ [b])\<rparr>)
           | Some sy \<Rightarrow>
               if sy = 256 then Inl CompressionError
               else Inr (s\<lparr>hs_decoded := hs_decoded s @ [ucast sy], hs_curr := 0,
                           hs_bits_since_symbol := 0, hs_trailing_ones := True\<rparr>)))"
  using assms symbol [of "p @ [b]"]
  by (auto simp: on_path_def huff_step_def walk_append sym_at_def Let_def split: option.splits)

lemma on_path_start:
  "on_path [] (s\<lparr>hs_decoded := d, hs_curr := 0, hs_bits_since_symbol := 0, hs_trailing_ones := True\<rparr>)"
  by (simp add: on_path_def)

text \<open>Along a proper prefix of a word the loop only moves.\<close>

lemma loop_partial:
  assumes "on_path p s" "word c \<noteq> None" "strict_prefix (p @ r) c"
  shows "\<exists>s'. huff_loop nodes s r = Inr s' \<and> on_path (p @ r) s' \<and> hs_decoded s' = hs_decoded s"
  using assms
proof (induction r arbitrary: p s)
  case (Cons b r)
  have pre: "strict_prefix (p @ [b]) c"
    using Cons.prems(3) by (auto simp: strict_prefix_def prefix_def)
  then have "word (p @ [b]) = None"
    using prefix_free [of "p @ [b]" c] Cons.prems(2)
    by (cases "word (p @ [b])") (auto simp: strict_prefix_def)
  moreover obtain j where j: "walk nodes 0 (p @ [b]) = Some j"
    using reach [of "p @ [b]"] pre Cons.prems(2) by (auto simp: strict_prefix_def)
  ultimately have "\<exists>s1. huff_step nodes s b = Inr s1 \<and> on_path (p @ [b]) s1
    \<and> hs_decoded s1 = hs_decoded s"
    unfolding step_on_path [OF Cons.prems(1)] on_path_def by simp
  then obtain s1 where s1: "huff_step nodes s b = Inr s1" "on_path (p @ [b]) s1"
    "hs_decoded s1 = hs_decoded s" by blast
  with Cons.IH [OF s1(2) Cons.prems(2)] Cons.prems(3) show ?case by simp
qed (simp add: on_path_def)

lemma loop_append:
  "huff_loop nodes s (xs @ ys) =
     (case huff_loop nodes s xs of Inl e \<Rightarrow> Inl e | Inr s' \<Rightarrow> huff_loop nodes s' ys)"
  by (induction xs arbitrary: s) (auto split: sum.splits)

lemma loop_word:
  assumes "on_path [] s" "word c = Some sy" "sy \<noteq> 256"
  shows "\<exists>s'. huff_loop nodes s c = Inr s' \<and> on_path [] s' \<and> hs_decoded s' = hs_decoded s @ [ucast sy]"
proof -
  obtain p b where c: "c = p @ [b]"
    using assms(2) no_empty_word by (cases c rule: rev_cases) auto
  obtain s1 where s1: "huff_loop nodes s p = Inr s1" "on_path p s1" "hs_decoded s1 = hs_decoded s"
    using loop_partial [OF assms(1), of c p] assms(2) c by (auto simp: strict_prefix_def)
  obtain j where "walk nodes 0 (p @ [b]) = Some j"
    using reach [of c] assms(2) c by auto
  then show ?thesis
    using assms(2,3) s1 on_path_start by (simp add: c loop_append step_on_path [OF s1(2)])
qed

lemma loop_words:
  assumes "on_path [] s" "list_all (\<lambda>c. word c \<noteq> None \<and> word c \<noteq> Some 256) cs"
  shows "\<exists>s'. huff_loop nodes s (concat cs) = Inr s' \<and> on_path [] s'
     \<and> hs_decoded s' = hs_decoded s @ map (\<lambda>c. ucast (the (word c))) cs"
  using assms
proof (induction cs arbitrary: s)
  case (Cons c cs)
  then obtain sy where "word c = Some sy" "sy \<noteq> 256" by auto
  with loop_word [OF Cons.prems(1)] obtain s1 where
    s1: "huff_loop nodes s c = Inr s1" "on_path [] s1" "hs_decoded s1 = hs_decoded s @ [ucast (the (word c))]"
    by fastforce
  with Cons.IH [OF s1(2)] Cons.prems(2) show ?case by (auto simp: loop_append)
qed simp

text \<open>Conversely, what the loop accepts is a sequence of words and an unfinished rest.\<close>

lemma loop_sound:
  assumes "on_path p s" "word p = None" "huff_loop nodes s bits = Inr s'"
  shows "\<exists>cs p'. p @ bits = concat cs @ p' \<and> list_all (\<lambda>c. word c \<noteq> None \<and> word c \<noteq> Some 256) cs
     \<and> hs_decoded s' = hs_decoded s @ map (\<lambda>c. ucast (the (word c))) cs \<and> on_path p' s' \<and> word p' = None"
  using assms
proof (induction bits arbitrary: p s)
  case Nil
  then show ?case by (intro exI [of _ "[]"] exI [of _ p]) simp
next
  case (Cons b bits)
  from Cons.prems(3) obtain s1 where
    s1: "huff_step nodes s b = Inr s1" "huff_loop nodes s1 bits = Inr s'" by (auto split: sum.splits)
  then obtain j where j: "walk nodes 0 (p @ [b]) = Some j"
    by (auto simp: step_on_path [OF Cons.prems(1)] split: option.splits)
  show ?case
  proof (cases "word (p @ [b])")
    case None
    then have "on_path (p @ [b]) s1 \<and> hs_decoded s1 = hs_decoded s"
      using s1(1) j by (auto simp: step_on_path [OF Cons.prems(1)] on_path_def)
    with Cons.IH [OF _ None s1(2)] show ?thesis by simp
  next
    case (Some sy)
    then have "on_path [] s1 \<and> hs_decoded s1 = hs_decoded s @ [ucast sy] \<and> sy \<noteq> 256"
      using s1(1) j by (auto simp: step_on_path [OF Cons.prems(1)] on_path_start split: if_splits)
    with Cons.IH [OF _ no_empty_word s1(2)] obtain cs p' where
      "bits = concat cs @ p'" "list_all (\<lambda>c. word c \<noteq> None \<and> word c \<noteq> Some 256) cs" "sy \<noteq> 256"
      "hs_decoded s' = hs_decoded s @ ucast sy # map (\<lambda>c. ucast (the (word c))) cs"
      "on_path p' s'" "word p' = None" by auto
    with Some show ?thesis by (intro exI [of _ "(p @ [b]) # cs"] exI [of _ p']) simp
  qed
qed

lemma on_path_root: "on_path p s \<Longrightarrow> arena_ok nodes \<Longrightarrow> hs_curr s = 0 \<longleftrightarrow> p = []"
  using walk_root [of nodes p] by (auto simp: on_path_def)

end

section \<open>The table is a complete prefix-free code\<close>

text \<open>A trie over the code words; inserting fails when a word and an older one are comparable.\<close>

datatype trie = Hole | Word | Fork trie trie

fun trie_insert :: "bool list \<Rightarrow> trie \<Rightarrow> trie option" where
  "trie_insert [] Hole = Some Word"
| "trie_insert (b # bs) Hole =
     map_option (\<lambda>t. if b then Fork Hole t else Fork t Hole) (trie_insert bs Hole)"
| "trie_insert (b # bs) (Fork l r) =
     (if b then map_option (\<lambda>t. Fork l t) (trie_insert bs r)
      else map_option (\<lambda>t. Fork t r) (trie_insert bs l))"
| "trie_insert _ _ = None"

fun trie_words :: "trie \<Rightarrow> bool list set" where
  "trie_words Hole = {}"
| "trie_words Word = {[]}"
| "trie_words (Fork l r) = (Cons False ` trie_words l) \<union> (Cons True ` trie_words r)"

fun trie_full :: "trie \<Rightarrow> bool" where
  "trie_full Hole = False"
| "trie_full Word = True"
| "trie_full (Fork l r) = (trie_full l \<and> trie_full r)"

fun trie_build :: "bool list list \<Rightarrow> trie \<Rightarrow> trie option" where
  "trie_build [] t = Some t"
| "trie_build (c # cs) t = (case trie_insert c t of None \<Rightarrow> None | Some t' \<Rightarrow> trie_build cs t')"

lemma trie_insert_words:
  "trie_insert c t = Some t' \<Longrightarrow>
   trie_words t' = insert c (trie_words t) \<and> (\<forall>d \<in> trie_words t. \<not> prefix c d \<and> \<not> prefix d c)"
  by (induction c t arbitrary: t' rule: trie_insert.induct) (auto split: if_splits)

lemma trie_build_words:
  "trie_build cs t = Some t' \<Longrightarrow>
   trie_words t' = trie_words t \<union> set cs \<and> distinct cs
   \<and> (\<forall>c \<in> set cs. \<forall>d \<in> trie_words t. \<not> prefix c d \<and> \<not> prefix d c)
   \<and> (\<forall>c \<in> set cs. \<forall>d \<in> set cs. prefix c d \<longrightarrow> c = d)"
proof (induction cs arbitrary: t)
  case (Cons c cs)
  then obtain t1 where t1: "trie_insert c t = Some t1" "trie_build cs t1 = Some t'"
    by (auto split: option.splits)
  from trie_insert_words [OF t1(1)] Cons.IH [OF t1(2)] show ?case by auto
qed simp

lemma huffman_trie:
  "case trie_build (map fst (spec_codes HUFFMAN_SPEC)) Hole of None \<Rightarrow> False | Some t \<Rightarrow> trie_full t"
  by code_simp

lemma huffman_symbols: "map fst HUFFMAN_SPEC = map of_nat [0..<257]"
  by code_simp

lemma huffman_words_nonempty: "list_all (\<lambda>w. fst w \<noteq> []) (spec_codes HUFFMAN_SPEC)"
  by code_simp

lemma huffman_eos: "spec_codes HUFFMAN_SPEC ! 256 = (replicate 30 True, 256)"
  by code_simp

abbreviation huff_word :: "bool list \<Rightarrow> u16 option" where
  "huff_word \<equiv> map_of (spec_codes HUFFMAN_SPEC)"

text \<open>The code word of a byte.\<close>

definition huff_code :: "u8 \<Rightarrow> bool list" where
  "huff_code b = (case HUFFMAN_SPEC ! unat b of (sy, c, n) \<Rightarrow> code_bits c n)"

lemma huffman_words:
  "distinct (map fst (spec_codes HUFFMAN_SPEC))"
  "c \<in> fst ` set (spec_codes HUFFMAN_SPEC) \<Longrightarrow> d \<in> fst ` set (spec_codes HUFFMAN_SPEC) \<Longrightarrow>
   prefix c d \<Longrightarrow> c = d"
proof -
  obtain t where "trie_build (map fst (spec_codes HUFFMAN_SPEC)) Hole = Some t"
    using huffman_trie by (auto split: option.splits)
  from trie_build_words [OF this] show "distinct (map fst (spec_codes HUFFMAN_SPEC))"
    "c \<in> fst ` set (spec_codes HUFFMAN_SPEC) \<Longrightarrow> d \<in> fst ` set (spec_codes HUFFMAN_SPEC) \<Longrightarrow>
     prefix c d \<Longrightarrow> c = d"
    by auto
qed

interpretation huff: code_tree "build_tree HUFFMAN_SPEC" huff_word
proof unfold_locales
  fix q
  show "sym_at (build_tree HUFFMAN_SPEC) q = huff_word q"
    using build_tree_spec [of HUFFMAN_SPEC] huffman_words(1)
      map_of_inject_set [of "rev (spec_codes HUFFMAN_SPEC)" "spec_codes HUFFMAN_SPEC"]
    by (simp add: rev_map [symmetric])
  show "walk (build_tree HUFFMAN_SPEC) 0 q \<noteq> None \<longleftrightarrow> q = [] \<or> (\<exists>c. huff_word c \<noteq> None \<and> prefix q c)"
    using build_tree_spec [of HUFFMAN_SPEC] unfolding map_of_eq_None_iff by blast
next
  fix a b
  assume "huff_word a \<noteq> None" "huff_word b \<noteq> None" "prefix a b"
  then show "a = b" unfolding map_of_eq_None_iff using huffman_words(2) by blast
next
  have "[] \<notin> fst ` set (spec_codes HUFFMAN_SPEC)"
    using huffman_words_nonempty by (auto simp: list_all_iff)
  then show "huff_word [] = None" unfolding map_of_eq_None_iff .
qed

section \<open>What decodes\<close>

lemma length_HUFFMAN_SPEC: "length HUFFMAN_SPEC = 257"
  using arg_cong [OF huffman_symbols, of length] by simp

lemma spec_codes_nth:
  assumes "i < 257"
  shows "snd (spec_codes HUFFMAN_SPEC ! i) = of_nat i"
proof -
  have "fst (HUFFMAN_SPEC ! i) = map fst HUFFMAN_SPEC ! i"
    using assms by (simp add: length_HUFFMAN_SPEC)
  also have "\<dots> = of_nat i" unfolding huffman_symbols using assms by simp
  finally show ?thesis
    using assms by (cases "HUFFMAN_SPEC ! i") (simp add: spec_codes_def length_HUFFMAN_SPEC)
qed

lemma byte_as_symbol:
  fixes b :: u8
  shows "(ucast b :: u16) = of_nat (unat b)" "ucast (ucast b :: u16) = b" "ucast b \<noteq> (256 :: u16)"
proof -
  have b: "unat b < 256" using unsigned_less [of b, where ?'a = nat] by simp
  then have u: "unat (ucast b :: u16) = unat b"
    by (simp add: unsigned_ucast_eq take_bit_nat_eq_self)
  then show "(ucast b :: u16) = of_nat (unat b)"
    using b by (simp add: word_unat_eq_iff unat_of_nat take_bit_nat_eq_self)
  show "ucast (ucast b :: u16) = b" by (rule bit_word_eqI) (simp add: bit_simps)
  show "ucast b \<noteq> (256 :: u16)" using u b by auto
qed

lemma huff_code_nth: "fst (spec_codes HUFFMAN_SPEC ! unat (b :: u8)) = huff_code b"
proof -
  have "unat b < 257" using unsigned_less [of b, where ?'a = nat] by simp
  then show ?thesis by (simp add: spec_codes_def huff_code_def length_HUFFMAN_SPEC split: prod.splits)
qed

lemma huff_word_iff_nth:
  "huff_word c = Some sy \<longleftrightarrow> (\<exists>i < 257. spec_codes HUFFMAN_SPEC ! i = (c, sy))"
proof -
  have "length (spec_codes HUFFMAN_SPEC) = 257" by (simp add: spec_codes_def length_HUFFMAN_SPEC)
  then show ?thesis using huffman_words(1) by (simp add: in_set_conv_nth)
qed

lemma huff_word_code: "huff_word (huff_code b) = Some (ucast b)"
proof -
  have b: "unat b < 257" using unsigned_less [of b, where ?'a = nat] by simp
  have "spec_codes HUFFMAN_SPEC ! unat b = (huff_code b, ucast b)"
    using spec_codes_nth [OF b] huff_code_nth [of b] by (simp only: prod_eq_iff fst_conv snd_conv byte_as_symbol(1) simp_thms)
  then show ?thesis unfolding huff_word_iff_nth using b by blast
qed

lemma huff_word_byte:
  assumes "huff_word c = Some sy" "sy \<noteq> 256"
  shows "c = huff_code (ucast sy)"
proof -
  obtain i where i: "i < 257" "spec_codes HUFFMAN_SPEC ! i = (c, sy)"
    using assms(1) unfolding huff_word_iff_nth by blast
  then have sy: "sy = of_nat i" using spec_codes_nth [OF i(1)] by simp
  have "i \<noteq> 256" using assms(2) sy by (intro notI) simp
  then have "i < 256" using i(1) by linarith
  then have "unat (ucast sy :: u8) = i"
    by (simp add: sy unsigned_ucast_eq unat_of_nat take_bit_nat_eq_self)
  then show ?thesis using huff_code_nth [of "ucast sy"] i(2) by simp
qed

lemma huff_word_eos: "huff_word (replicate 30 True) = Some 256"
  unfolding huff_word_iff_nth using huffman_eos by (intro exI [of _ 256]) simp

abbreviation data_word :: "bool list \<Rightarrow> bool" where
  "data_word c \<equiv> huff_word c \<noteq> None \<and> huff_word c \<noteq> Some 256"

lemma data_word_code: "data_word (huff_code b)"
  by (simp add: huff_word_code byte_as_symbol(3))

lemma data_words:
  "list_all data_word cs \<Longrightarrow> cs = map huff_code (map (\<lambda>c. ucast (the (huff_word c))) cs)"
  by (induction cs) (auto dest: huff_word_byte)

lemma start_on_path: "huff.on_path [] huff_start"
  by (simp add: huff.on_path_def huff_start_def)

lemma all_ones: "list_all (\<lambda>b. b) p \<longleftrightarrow> p = replicate (length p) True"
  by (induction p) auto

lemma ones_strict: "k \<le> 7 \<Longrightarrow> strict_prefix (replicate k True) (replicate 30 True)"
proof -
  assume "k \<le> 7"
  then have "replicate 30 True = replicate k True @ replicate (30 - k) True"
    by (simp flip: replicate_add)
  then show ?thesis using \<open>k \<le> 7\<close> by (auto simp: strict_prefix_def prefix_def)
qed

lemma decode_huffman_sound:
  assumes "decode_huffman bs = Inr s"
  shows "utf8_str s \<and> (\<exists>k \<le> 7. concat (map byte_bits bs) = concat (map huff_code (str_bytes s)) @ replicate k True)"
proof -
  let ?bits = "concat (map byte_bits bs)"
  obtain st where st: "huff_loop (build_tree HUFFMAN_SPEC) huff_start ?bits = Inr st"
    "\<not> (hs_curr st \<noteq> 0 \<and> (hs_bits_since_symbol st > 7 \<or> \<not> hs_trailing_ones st))"
    "from_utf8 (hs_decoded st) = Some s"
    using assms by (auto simp: decode_huffman_def split: sum.splits if_splits option.splits)
  from huff.loop_sound [OF start_on_path huff.no_empty_word st(1)] obtain cs p where
    cs: "?bits = concat cs @ p" "list_all data_word cs"
      "hs_decoded st = map (\<lambda>c. ucast (the (huff_word c))) cs" "huff.on_path p st"
    by (auto simp: huff_start_def)
  have "cs = map huff_code (hs_decoded st)" using data_words [OF cs(2)] cs(3) by simp
  moreover have p: "list_all (\<lambda>b. b) p \<and> length p \<le> 7"
    using st(2) huff.on_path_root [OF cs(4)] build_tree_spec [of HUFFMAN_SPEC, THEN conjunct1] cs(4)
    unfolding huff.on_path_def by (cases "p = []") auto
  moreover have "p = replicate (length p) True" using p all_ones by blast
  ultimately show ?thesis using cs(1) str_bytes_from_utf8 [OF st(3)] by metis
qed

lemma decode_huffman_complete:
  assumes "utf8_str s" "k \<le> 7" "concat (map byte_bits bs) = concat (map huff_code (str_bytes s)) @ replicate k True"
  shows "decode_huffman bs = Inr s"
proof -
  let ?cs = "map huff_code (str_bytes s)"
  have "list_all data_word ?cs" using data_word_code by (simp add: list_all_iff)
  from huff.loop_words [OF start_on_path this] obtain s1 where
    s1: "huff_loop (build_tree HUFFMAN_SPEC) huff_start (concat ?cs) = Inr s1" "huff.on_path [] s1"
      "hs_decoded s1 = str_bytes s"
    by (auto simp: huff_start_def huff_word_code byte_as_symbol(2) comp_def)
  from huff.loop_partial [OF s1(2), of "replicate 30 True" "replicate k True"] obtain s2 where
    s2: "huff_loop (build_tree HUFFMAN_SPEC) s1 (replicate k True) = Inr s2"
      "huff.on_path (replicate k True) s2" "hs_decoded s2 = str_bytes s"
    using ones_strict [OF assms(2)] huff_word_eos s1(3) by auto
  have "hs_bits_since_symbol s2 = k" "hs_trailing_ones s2"
    using s2(2) by (auto simp: huff.on_path_def all_ones)
  then show ?thesis
    unfolding decode_huffman_def assms(3) huff.loop_append s1(1) sum.case s2(1) s2(3)
      from_utf8_str_bytes [OF assms(1)] option.case using assms(2) by simp
qed

text \<open>
  C3. The Huffman decoder accepts exactly the byte strings whose bits are the code words of a
  valid UTF-8 string followed by at most seven one-bits of padding, and it returns that string.
\<close>

theorem decode_huffman_iff:
  "decode_huffman bs = Inr s \<longleftrightarrow>
   utf8_str s \<and> (\<exists>k \<le> 7. concat (map byte_bits bs) = concat (map huff_code (str_bytes s)) @ replicate k True)"
  using decode_huffman_sound decode_huffman_complete by blast

end
