(* ===== verification/Ip_Addr.thy ===== *)
theory Ip_Addr
  imports Prelude "HOL-Library.Code_Target_Nat"
begin

text \<open>
  IP addresses: the type \<open>std::net::IpAddr\<close>, its text parser as the standard library has it,
  and the address blocks of \<open>src/src/config/veysrule.rs\<close>. The lemmas relate the mask test of
  \<open>Cidr::contains\<close> to intervals of addresses.
\<close>

datatype ip_addr = V4 u32 | V6 "128 word"

type_synonym socket_addr = "ip_addr \<times> nat"

section \<open>Parsing an address\<close>

text \<open>
  Each reader consumes a prefix of the text and returns the rest, or fails without
  consuming. \<open>read_digits\<close> reads the digits of a number with at most \<open>k\<close> more to come.
\<close>

fun read_digits :: "nat \<Rightarrow> nat \<Rightarrow> string \<Rightarrow> nat \<times> nat \<times> string" where
  "read_digits radix acc [] = (acc, 0, [])"
| "read_digits radix acc (c # cs) =
     (case digit_val radix c of
        None \<Rightarrow> (acc, 0, c # cs)
      | Some d \<Rightarrow> (let (v, n, rest) = read_digits radix (acc * radix + d) cs in (v, Suc n, rest)))"

definition read_number :: "nat \<Rightarrow> nat \<Rightarrow> nat \<Rightarrow> bool \<Rightarrow> string \<Rightarrow> (nat \<times> string) option" where
  "read_number radix max_digits max_value allow_zero_prefix s =
     (let (v, n, rest) = read_digits radix 0 s in
      if n = 0 \<or> n > max_digits \<or> v > max_value \<or>
         (\<not> allow_zero_prefix \<and> hd s = CHR ''0'' \<and> n > 1)
      then None else Some (v, rest))"

definition read_char :: "char \<Rightarrow> string \<Rightarrow> string option" where
  "read_char c s = (case s of [] \<Rightarrow> None | x # xs \<Rightarrow> if x = c then Some xs else None)"

text \<open>\<open>read_separator\<close>: from the second item on, the separator comes first.\<close>

definition read_sep :: "char \<Rightarrow> nat \<Rightarrow> (string \<Rightarrow> ('a \<times> string) option) \<Rightarrow> string \<Rightarrow> ('a \<times> string) option" where
  "read_sep c i p s =
     (if i = 0 then p s else case read_char c s of None \<Rightarrow> None | Some r \<Rightarrow> p r)"

abbreviation read_octet :: "string \<Rightarrow> (nat \<times> string) option" where
  "read_octet \<equiv> read_number 10 3 255 False"

definition read_ipv4 :: "string \<Rightarrow> (u32 \<times> string) option" where
  "read_ipv4 s =
     (case read_octet s of None \<Rightarrow> None | Some (a, s) \<Rightarrow>
      case read_sep (CHR ''.'') 1 read_octet s of None \<Rightarrow> None | Some (b, s) \<Rightarrow>
      case read_sep (CHR ''.'') 2 read_octet s of None \<Rightarrow> None | Some (c, s) \<Rightarrow>
      case read_sep (CHR ''.'') 3 read_octet s of None \<Rightarrow> None | Some (d, s) \<Rightarrow>
        Some (be32 (of_nat a) (of_nat b) (of_nat c) (of_nat d), s))"

text \<open>
  \<open>read_groups\<close> with room for \<open>limit\<close> groups, at index \<open>i\<close>: the groups read, whether the
  last two came from a dotted IPv4 address, and the rest.
\<close>

function read_groups :: "nat \<Rightarrow> nat \<Rightarrow> string \<Rightarrow> nat list \<times> bool \<times> string" where
  "read_groups limit i s =
     (if i \<ge> limit then ([], False, s)
      else case (if i < limit - 1 then read_sep (CHR '':'') i read_ipv4 s else None) of
             Some (w, rest) \<Rightarrow> ([unat w div 65536, unat w mod 65536], True, rest)
           | None \<Rightarrow>
               (case read_sep (CHR '':'') i (read_number 16 4 65535 True) s of
                  None \<Rightarrow> ([], False, s)
                | Some (g, rest) \<Rightarrow>
                    (let (gs, v4, rest) = read_groups limit (Suc i) rest in (g # gs, v4, rest))))"
  by pat_completeness auto
termination
  by (relation "measure (\<lambda>(limit, i, s). limit - i)") auto

declare read_groups.simps [simp del]

definition groups_word :: "nat list \<Rightarrow> 128 word" where
  "groups_word gs = of_nat (foldl (\<lambda>acc g. acc * 65536 + g) 0 gs)"

definition read_ipv6 :: "string \<Rightarrow> (128 word \<times> string) option" where
  "read_ipv6 s =
     (let (gs, v4, s) = read_groups 8 0 s in
      if length gs = 8 then Some (groups_word gs, s)
      else if v4 then None
      else case read_char (CHR '':'') s of None \<Rightarrow> None | Some s \<Rightarrow>
           case read_char (CHR '':'') s of None \<Rightarrow> None | Some s \<Rightarrow>
             (let (ts, _, s) = read_groups (8 - (length gs + 1)) 0 s in
              Some (groups_word (gs @ replicate (8 - length gs - length ts) 0 @ ts), s)))"

definition parse_ip :: "string \<Rightarrow> ip_addr option" where
  "parse_ip s =
     (case read_ipv4 s of
        Some (a, []) \<Rightarrow> Some (V4 a)
      | Some (a, _ # _) \<Rightarrow> None
      | None \<Rightarrow>
          (case read_ipv6 s of
             Some (a, []) \<Rightarrow> Some (V6 a)
           | _ \<Rightarrow> None))"

section \<open>Address blocks\<close>

record cidr =
  ci_address :: ip_addr
  ci_prefix :: u8

text \<open>The masks \<open>u32::MAX << (32 - prefix)\<close> and \<open>u128::MAX << (128 - prefix)\<close>.\<close>

definition v4_mask :: "nat \<Rightarrow> u32" where
  "v4_mask n = (if n = 0 then 0 else push_bit (32 - n) (- 1))"

definition v6_mask :: "nat \<Rightarrow> 128 word" where
  "v6_mask n = (if n = 0 then 0 else push_bit (128 - n) (- 1))"

fun cidr_contains :: "cidr \<Rightarrow> ip_addr \<Rightarrow> bool" where
  "cidr_contains c candidate =
     (case (ci_address c, candidate) of
        (V4 network, V4 val) \<Rightarrow>
          (let m = v4_mask (unat (ci_prefix c)) in network AND m = val AND m)
      | (V6 network, V6 val) \<Rightarrow>
          (let m = v6_mask (unat (ci_prefix c)) in network AND m = val AND m)
      | _ \<Rightarrow> False)"

definition parse_cidr :: "string \<Rightarrow> string + cidr" where
  "parse_cidr val =
     (case split_once (CHR ''/'') val of
        None \<Rightarrow> Inl ''CIDR must use address/prefix notation''
      | Some (address, pre) \<Rightarrow>
          (case parse_ip address of
             None \<Rightarrow> Inl ''invalid IP address''
           | Some ip \<Rightarrow>
               (case parse_u8 pre of
                  None \<Rightarrow> Inl ''invalid CIDR prefix''
                | Some n \<Rightarrow>
                    (let mx = (case ip of V4 _ \<Rightarrow> 32 | V6 _ \<Rightarrow> 128) in
                     if n > mx then Inl (''CIDR prefix must be between 0 and '' @ show_nat mx)
                     else Inr \<lparr>ci_address = ip, ci_prefix = of_nat n\<rparr>))))"

section \<open>Meaning of a block\<close>

lemma masked_eq:
  fixes a b :: "'a::len word"
  assumes "n \<le> LENGTH('a)"
  shows "a AND push_bit n (- 1) = b AND push_bit n (- 1) \<longleftrightarrow> drop_bit n a = drop_bit n b"
proof
  assume h: "a AND push_bit n (- 1) = b AND push_bit n (- 1)"
  show "drop_bit n a = drop_bit n b"
  proof (rule bit_word_eqI)
    fix k assume "k < LENGTH('a)"
    have "bit (a AND push_bit n (- 1)) (n + k) = bit (b AND push_bit n (- 1)) (n + k)" by (simp only: h)
    then show "bit (drop_bit n a) k = bit (drop_bit n b) k"
      by (auto simp: bit_simps ac_simps dest: bit_imp_le_length)
  qed
next
  assume h: "drop_bit n a = drop_bit n b"
  show "a AND push_bit n (- 1) = b AND push_bit n (- 1)"
  proof (rule bit_word_eqI)
    fix k assume k: "k < LENGTH('a)"
    have "n \<le> k \<Longrightarrow> bit (drop_bit n a) (k - n) = bit (drop_bit n b) (k - n)" by (simp add: h)
    then show "bit (a AND push_bit n (- 1)) k = bit (b AND push_bit n (- 1)) k"
      using k by (auto simp: bit_simps)
  qed
qed

lemma drop_bit_eq_iff:
  fixes a b :: "'a::len word"
  shows "drop_bit n a = drop_bit n b \<longleftrightarrow> uint a div 2 ^ n = uint b div 2 ^ n"
  unfolding word_uint_eq_iff [of "drop_bit n a"] unsigned_drop_bit_eq
  by (simp add: drop_bit_eq_div take_bit_int_eq_self)

text \<open>
  C10. A block with an admissible prefix length contains exactly the addresses of its own family
  that agree with its address on the leading prefix bits: the integer quotients by the size of
  the block are equal.
\<close>

theorem cidr_contains_iff:
  assumes "case ci_address c of V4 _ \<Rightarrow> unat (ci_prefix c) \<le> 32 | V6 _ \<Rightarrow> unat (ci_prefix c) \<le> 128"
  shows "cidr_contains c ip \<longleftrightarrow>
    (case (ci_address c, ip) of
       (V4 a, V4 b) \<Rightarrow> uint a div 2 ^ (32 - unat (ci_prefix c)) = uint b div 2 ^ (32 - unat (ci_prefix c))
     | (V6 a, V6 b) \<Rightarrow> uint a div 2 ^ (128 - unat (ci_prefix c)) = uint b div 2 ^ (128 - unat (ci_prefix c))
     | _ \<Rightarrow> False)"
proof -
  have full: "uint w div 2 ^ 32 = 0" for w :: u32 using uint_lt2p [of w] uint_ge_0 [of w] by simp
  have full6: "uint w div 2 ^ 128 = 0" for w :: "128 word" using uint_lt2p [of w] uint_ge_0 [of w] by simp
  show ?thesis
    using assms masked_eq [where ?'a = 32] masked_eq [where ?'a = 128]
    by (auto simp: v4_mask_def v6_mask_def drop_bit_eq_iff full [simplified] full6 [simplified] split: ip_addr.splits)
qed

theorem cidr_contains_iff_witness:
  "let c = \<lparr>ci_address = V4 0xC0A80000, ci_prefix = 16\<rparr> in
   parse_cidr ''192.168.0.0/16'' = Inr c \<and> unat (ci_prefix c) \<le> 32 \<and>
   cidr_contains c (V4 0xC0A8FF01) \<and> \<not> cidr_contains c (V4 0xC0A90001)"
proof -
  let ?c = "\<lparr>ci_address = V4 0xC0A80000, ci_prefix = 16\<rparr>"
  have "parse_cidr ''192.168.0.0/16'' = Inr ?c" by code_simp
  moreover have "cidr_contains ?c (V4 0xC0A8FF01) \<and> \<not> cidr_contains ?c (V4 0xC0A90001)"
    by (subst (1 2) cidr_contains_iff) simp_all
  ultimately show ?thesis by (simp add: Let_def del: cidr_contains.simps)
qed

text \<open>A parsed block is always admissible, so the characterisation applies to it.\<close>

lemma parse_cidr_prefix:
  assumes "parse_cidr s = Inr c"
  shows "case ci_address c of V4 _ \<Rightarrow> unat (ci_prefix c) \<le> 32 | V6 _ \<Rightarrow> unat (ci_prefix c) \<le> 128"
  using assms from_str_radix_bound
  by (fastforce simp: parse_cidr_def Let_def unat_of_nat take_bit_nat_eq_self
      split: option.splits prod.splits ip_addr.splits if_splits)

lemma parse_ip_examples:
  "parse_ip ''127.0.0.1'' = Some (V4 0x7F000001)"
  "parse_ip ''127.0.0.01'' = None"
  "parse_ip ''::1'' = Some (V6 1)"
  "parse_ip ''2001:db8::8:800'' = Some (V6 0x20010DB8000000000000000000080800)"
  "parse_ip ''::ffff:1.2.3.4'' = Some (V6 0xFFFF01020304)"
  "parse_ip ''1:2:3:4:5:6:7:8:9'' = None"
  by code_simp+

section \<open>Printing an address\<close>

text \<open>The standard library's \<open>Display\<close>: the longest run of zero groups is left out, the first one of equal runs.\<close>

fun join_with :: "string \<Rightarrow> string list \<Rightarrow> string" where
  "join_with sep [] = []"
| "join_with sep [s] = s"
| "join_with sep (s # ss) = s @ sep @ join_with sep ss"

definition show_ipv4 :: "u32 \<Rightarrow> string" where
  "show_ipv4 w = join_with ''.'' (map (\<lambda>b. show_nat (unat b)) (u32_to_be_bytes w))"

definition v6_segments :: "128 word \<Rightarrow> nat list" where
  "v6_segments w = map (\<lambda>k. unat w div 65536 ^ (7 - k) mod 65536) [0..<8]"

fun zero_span :: "nat \<Rightarrow> nat \<times> nat \<Rightarrow> nat \<times> nat \<Rightarrow> nat list \<Rightarrow> nat \<times> nat" where
  "zero_span i cur longest [] = longest"
| "zero_span i cur longest (s # ss) =
     (if s = 0 then
        (let cur = (if snd cur = 0 then (i, 1) else (fst cur, snd cur + 1));
             longest = (if snd cur > snd longest then cur else longest)
         in zero_span (Suc i) cur longest ss)
      else zero_span (Suc i) (0, 0) longest ss)"

definition show_ipv6 :: "128 word \<Rightarrow> string" where
  "show_ipv6 w =
     (let segs = v6_segments w; (start, len) = zero_span 0 (0, 0) (0, 0) segs in
      if take 6 segs = [0, 0, 0, 0, 0, 65535] then ''::ffff:'' @ show_ipv4 (ucast w)
      else if len > 1 then
        join_with '':'' (map show_hex (take start segs)) @ ''::'' @ join_with '':'' (map show_hex (drop (start + len) segs))
      else join_with '':'' (map show_hex segs))"

fun show_ip :: "ip_addr \<Rightarrow> string" where
  "show_ip (V4 w) = show_ipv4 w"
| "show_ip (V6 w) = show_ipv6 w"

lemma show_ip_examples:
  "show_ip (V4 0x7F000001) = ''127.0.0.1''"
  "show_ip (V6 1) = ''::1''"
  "show_ip (V6 0x20010db8000000000001000000000001) = ''2001:db8::1:0:0:1''"
  "show_ip (V6 0xFFFFC0A80001) = ''::ffff:192.168.0.1''"
  by code_simp+

end
