(* ===== verification/Config.thy ===== *)
theory Config
  imports Ip_Addr
begin

text \<open>
  Configuration data (\<open>src/src/config/veysrule.rs\<close>): the server configuration with its
  defaults, the directory configuration that \<open>.veysrule\<close> files produce, and the merge of a
  child directory's configuration into its parent's. A \<open>PathBuf\<close> is the string of the path.
\<close>

definition MAX_RULE_FILE_BYTES :: nat where "MAX_RULE_FILE_BYTES = 256 * 1024"
definition MAX_REWRITE_RULES :: nat where "MAX_REWRITE_RULES = 128"

record redirect_rule =
  rd_source :: string
  rd_target :: string
  rd_status :: nat

record rewrite_rule =
  rw_pattern :: string
  rw_replacement :: string
  rw_status :: "nat option"

record proxy_route =
  pr_host :: string
  pr_prefix :: string
  pr_upstream :: string

record fastcgi_route =
  fr_host :: string
  fr_prefix :: string
  fr_endpoint :: string
  fr_document_root :: string

record vhost_config =
  vh_host :: string
  vh_root_dir :: string
  vh_config_file :: "string option"
  vh_tls_certificate :: "string option"
  vh_tls_private_key :: "string option"

record server_config =
  sc_host :: string
  sc_port :: nat
  sc_root_dir :: string
  sc_config_file :: string
  sc_workers :: nat
  sc_dev_mode :: bool
  sc_max_request_size :: nat
  sc_max_header_size :: nat
  sc_max_headers :: nat
  sc_max_header_line :: nat
  sc_max_uri_length :: nat
  sc_read_timeout :: nat
  sc_write_timeout :: nat
  sc_keep_alive_timeout :: nat
  sc_max_connections :: nat
  sc_max_requests_per_connection :: nat
  sc_deny_hidden_files :: bool
  sc_http2_enabled :: bool
  sc_http2_max_concurrent_streams :: nat
  sc_http2_max_frame_size :: u32
  sc_http2_max_header_block_size :: nat
  sc_http2_initial_window_size :: u32
  sc_tls_enabled :: bool
  sc_tls_certificate :: "string option"
  sc_tls_private_key :: "string option"
  sc_vhosts :: "vhost_config list"
  sc_proxy_routes :: "proxy_route list"
  sc_fastcgi_routes :: "fastcgi_route list"
  sc_front_controller :: "string option"
  sc_log_format :: string
  sc_access_log :: string
  sc_error_log :: string
  sc_rate_limit_per_second :: nat
  sc_rate_limit_burst :: nat
  sc_max_connections_per_ip :: nat
  sc_security_x_content_type_options :: "string option"
  sc_security_referrer_policy :: "string option"
  sc_security_x_frame_options :: "string option"
  sc_security_content_security_policy :: "string option"
  sc_compression_enabled :: bool
  sc_compression_level :: nat
  sc_compression_min_size :: nat
  sc_compression_mime_types :: "string list"
  sc_upstream_health_interval :: nat
  sc_upstream_health_timeout :: nat
  sc_upstream_health_failures :: nat
  sc_upstream_health_recovery :: nat

definition server_config_default :: server_config where
  "server_config_default =
     \<lparr>sc_host = ''127.0.0.1'', sc_port = 8080, sc_root_dir = ''./public'',
      sc_config_file = ''./.veysrule'', sc_workers = 4, sc_dev_mode = False,
      sc_max_request_size = 65536, sc_max_header_size = 16384, sc_max_headers = 64,
      sc_max_header_line = 8192, sc_max_uri_length = 8192, sc_read_timeout = 10,
      sc_write_timeout = 10, sc_keep_alive_timeout = 10, sc_max_connections = 1024,
      sc_max_requests_per_connection = 100, sc_deny_hidden_files = True,
      sc_http2_enabled = True, sc_http2_max_concurrent_streams = 100,
      sc_http2_max_frame_size = 16384, sc_http2_max_header_block_size = 65536,
      sc_http2_initial_window_size = 65535, sc_tls_enabled = False,
      sc_tls_certificate = None, sc_tls_private_key = None, sc_vhosts = [],
      sc_proxy_routes = [], sc_fastcgi_routes = [], sc_front_controller = None,
      sc_log_format = ''text'', sc_access_log = ''stdout'', sc_error_log = ''stderr'',
      sc_rate_limit_per_second = 0, sc_rate_limit_burst = 0, sc_max_connections_per_ip = 0,
      sc_security_x_content_type_options = Some ''nosniff'',
      sc_security_referrer_policy = Some ''strict-origin-when-cross-origin'',
      sc_security_x_frame_options = None, sc_security_content_security_policy = None,
      sc_compression_enabled = True, sc_compression_level = 6, sc_compression_min_size = 1024,
      sc_compression_mime_types =
        [''text/'', ''application/javascript'', ''application/json'', ''application/xml'',
         ''image/svg+xml''],
      sc_upstream_health_interval = 0, sc_upstream_health_timeout = 2,
      sc_upstream_health_failures = 3, sc_upstream_health_recovery = 2\<rparr>"

record directory_config =
  dc_deny_ips :: "ip_addr list"
  dc_allow_networks :: "cidr list"
  dc_deny_networks :: "cidr list"
  dc_headers :: headers
  dc_add_headers :: headers
  dc_remove_headers :: "string list"
  dc_redirect_404 :: "string option"
  dc_redirect :: "redirect_rule option"
  dc_rewrites :: "rewrite_rule list"
  dc_methods :: "string list option"
  dc_index_files :: "string list option"
  dc_autoindex :: "bool option"
  dc_cache :: "bool option"
  dc_expires :: "nat option"
  dc_mime_types :: headers
  dc_error_pages :: "(nat \<times> string) list"
  dc_deny_hidden_files :: "bool option"

definition directory_config_default :: directory_config where
  "directory_config_default =
     \<lparr>dc_deny_ips = [], dc_allow_networks = [], dc_deny_networks = [], dc_headers = [],
      dc_add_headers = [], dc_remove_headers = [], dc_redirect_404 = None, dc_redirect = None,
      dc_rewrites = [], dc_methods = None, dc_index_files = None, dc_autoindex = None,
      dc_cache = None, dc_expires = None, dc_mime_types = [], dc_error_pages = [],
      dc_deny_hidden_files = None\<rparr>"

section \<open>Merging\<close>

text \<open>The loops of \<open>merge\<close>: append what is not there yet, or replace the value of an equal key.\<close>

definition push_new :: "('a \<Rightarrow> 'a \<Rightarrow> bool) \<Rightarrow> 'a list \<Rightarrow> 'a \<Rightarrow> 'a list" where
  "push_new same xs x = (if list_ex (\<lambda>y. same y x) xs then xs else xs @ [x])"

fun set_or_push :: "('k \<Rightarrow> 'k \<Rightarrow> bool) \<Rightarrow> ('k \<times> 'v) list \<Rightarrow> 'k \<times> 'v \<Rightarrow> ('k \<times> 'v) list" where
  "set_or_push same [] (k, v) = [(k, v)]"
| "set_or_push same ((k', v') # xs) (k, v) =
     (if same k' k then (k', v) # xs else (k', v') # set_or_push same xs (k, v))"

definition override :: "'a option \<Rightarrow> 'a option \<Rightarrow> 'a option" where
  "override parent child = (case child of Some x \<Rightarrow> Some x | None \<Rightarrow> parent)"

definition drop_header :: "string \<Rightarrow> headers \<Rightarrow> headers" where
  "drop_header name hs = filter (\<lambda>h. \<not> eq_ignore_ascii_case (fst h) name) hs"

text \<open>The loop over the child's removed headers.\<close>

definition merge_remove :: "directory_config \<Rightarrow> string \<Rightarrow> directory_config" where
  "merge_remove c name =
     c\<lparr>dc_remove_headers := push_new eq_ignore_ascii_case (dc_remove_headers c) name,
       dc_headers := drop_header name (dc_headers c),
       dc_add_headers := drop_header name (dc_add_headers c)\<rparr>"

definition merge_lists :: "directory_config \<Rightarrow> directory_config \<Rightarrow> directory_config" where
  "merge_lists self child =
     self\<lparr>
       dc_deny_ips := foldl (push_new (=)) (dc_deny_ips self) (dc_deny_ips child),
       dc_allow_networks := foldl (push_new (=)) (dc_allow_networks self) (dc_allow_networks child),
       dc_deny_networks := foldl (push_new (=)) (dc_deny_networks self) (dc_deny_networks child),
       dc_headers := foldl (set_or_push eq_ignore_ascii_case) (dc_headers self) (dc_headers child),
       dc_add_headers :=
         foldl (push_new (\<lambda>a b. eq_ignore_ascii_case (fst a) (fst b) \<and> snd a = snd b))
           (dc_add_headers self) (dc_add_headers child)\<rparr>"

definition merge :: "directory_config \<Rightarrow> directory_config \<Rightarrow> directory_config" where
  "merge self child =
     (let c = foldl merge_remove (merge_lists self child) (dc_remove_headers child)
      in c\<lparr>dc_redirect_404 := override (dc_redirect_404 self) (dc_redirect_404 child),
           dc_redirect := override (dc_redirect self) (dc_redirect child),
           dc_rewrites :=
             (if dc_rewrites child = [] then dc_rewrites self
              else take MAX_REWRITE_RULES (dc_rewrites self @ dc_rewrites child)),
           dc_methods := override (dc_methods self) (dc_methods child),
           dc_index_files := override (dc_index_files self) (dc_index_files child),
           dc_autoindex := override (dc_autoindex self) (dc_autoindex child),
           dc_cache := override (dc_cache self) (dc_cache child),
           dc_expires := override (dc_expires self) (dc_expires child),
           dc_mime_types :=
             foldl (set_or_push eq_ignore_ascii_case) (dc_mime_types self) (dc_mime_types child),
           dc_error_pages := foldl (set_or_push (=)) (dc_error_pages self) (dc_error_pages child),
           dc_deny_hidden_files := override (dc_deny_hidden_files self) (dc_deny_hidden_files child)\<rparr>)"

section \<open>Laws of merging\<close>

lemma set_push_new: "set (push_new same xs x) \<subseteq> insert x (set xs)" "set xs \<subseteq> set (push_new same xs x)"
  by (auto simp: push_new_def)

lemma set_foldl_push_new_eq: "set (foldl (push_new (=)) xs ys) = set xs \<union> set ys"
  by (induction ys arbitrary: xs) (auto simp: push_new_def list_ex_iff)

lemma foldl_merge_remove_fields [simp]:
  "dc_deny_ips (foldl merge_remove c ns) = dc_deny_ips c"
  "dc_allow_networks (foldl merge_remove c ns) = dc_allow_networks c"
  "dc_deny_networks (foldl merge_remove c ns) = dc_deny_networks c"
  by (induction ns arbitrary: c) (simp_all add: merge_remove_def)

lemma drop_header_subset: "set (drop_header n hs) \<subseteq> set hs"
  by (auto simp: drop_header_def)

lemma foldl_merge_remove_headers:
  "h \<in> set (dc_headers (foldl merge_remove c ns)) \<Longrightarrow>
     h \<in> set (dc_headers c) \<and> (\<forall>n \<in> set ns. \<not> eq_ignore_ascii_case (fst h) n)"
  "h \<in> set (dc_add_headers (foldl merge_remove c ns)) \<Longrightarrow>
     h \<in> set (dc_add_headers c) \<and> (\<forall>n \<in> set ns. \<not> eq_ignore_ascii_case (fst h) n)"
  by (induction ns arbitrary: c) (fastforce simp: merge_remove_def drop_header_def)+

text \<open>
  C11. Merging a child directory's rules never loses an access rule: the denied addresses, denied
  networks and allowed networks of the result are exactly those of the parent and the child.
\<close>

theorem merge_access_rules:
  "set (dc_deny_ips (merge p c)) = set (dc_deny_ips p) \<union> set (dc_deny_ips c) \<and>
   set (dc_deny_networks (merge p c)) = set (dc_deny_networks p) \<union> set (dc_deny_networks c) \<and>
   set (dc_allow_networks (merge p c)) = set (dc_allow_networks p) \<union> set (dc_allow_networks c)"
  by (simp add: merge_def Let_def merge_lists_def set_foldl_push_new_eq)

text \<open>
  C12. A header that a child directory removes is in neither header list of the merged
  configuration, under any capitalisation, even when the parent or the child itself sets it.
\<close>

theorem merge_removes_headers:
  assumes "n \<in> set (dc_remove_headers c)"
  shows "(\<forall>h \<in> set (dc_headers (merge p c)). \<not> eq_ignore_ascii_case (fst h) n)
    \<and> (\<forall>h \<in> set (dc_add_headers (merge p c)). \<not> eq_ignore_ascii_case (fst h) n)"
proof -
  let ?m = "foldl merge_remove (merge_lists p c) (dc_remove_headers c)"
  have "dc_headers (merge p c) = dc_headers ?m" "dc_add_headers (merge p c) = dc_add_headers ?m"
    by (simp_all add: merge_def Let_def)
  then show ?thesis using foldl_merge_remove_headers [of _ "merge_lists p c"] assms by auto
qed

theorem merge_removes_headers_witness:
  "let p = directory_config_default\<lparr>dc_headers := [(''X-Frame'', ''DENY''), (''A'', ''b'')]\<rparr>;
       c = directory_config_default\<lparr>dc_remove_headers := [''x-frame'']\<rparr>
   in ''x-frame'' \<in> set (dc_remove_headers c) \<and> dc_headers (merge p c) = [(''A'', ''b'')]
      \<and> (\<forall>h \<in> set (dc_headers (merge p c)). \<not> eq_ignore_ascii_case (fst h) ''x-frame'')"
proof -
  let ?p = "directory_config_default\<lparr>dc_headers := [(''X-Frame'', ''DENY''), (''A'', ''b'')]\<rparr>"
  let ?c = "directory_config_default\<lparr>dc_remove_headers := [''x-frame'']\<rparr>"
  have "dc_headers (merge ?p ?c) = [(''A'', ''b'')]" by code_simp
  then show ?thesis
    using merge_removes_headers [of "''x-frame''" ?c ?p] by (simp add: Let_def)
qed

text \<open>Merging the empty configuration changes nothing.\<close>

lemma merge_default_right: "merge p directory_config_default = p"
  by (simp add: merge_def merge_lists_def Let_def directory_config_default_def override_def)

lemma merge_rewrites_bound:
  "length (dc_rewrites p) \<le> MAX_REWRITE_RULES \<Longrightarrow> length (dc_rewrites (merge p c)) \<le> MAX_REWRITE_RULES"
  by (auto simp: merge_def Let_def)

lemma override_assoc: "override (override a b) c = override a (override b c)"
  by (simp add: override_def split: option.splits)

end
