(* ===== verification/Http.thy ===== *)
theory Http
  imports Config
begin

text \<open>
  HTTP/1.1 messages (\<open>src/src/server/http.rs\<close>): methods, status codes, the parser of a request
  head with every limit and error, the parser that also takes the body off the connection buffer,
  keep-alive, and the response with its serialisation and chunked writer. A file is the source of
  the bytes that reading it delivers, starting at the position it is opened at.
\<close>

section \<open>Methods, status codes, errors\<close>

datatype http_method = Get | Head | Post | Other string

primrec show_method :: "http_method \<Rightarrow> string" where
  "show_method Get = ''GET''"
| "show_method Head = ''HEAD''"
| "show_method Post = ''POST''"
| "show_method (Other m) = m"

text \<open>The method is matched in upper case (ASCII).\<close>

definition method_from :: "string \<Rightarrow> http_method" where
  "method_from s =
     (let u = to_ascii_uppercase s in
      if u = ''GET'' then Get else if u = ''HEAD'' then Head else if u = ''POST'' then Post else Other u)"

datatype status_code =
    Ok | Created | Accepted | NoContent | MovedPermanently | Found | PartialContent | NotModified
  | BadRequest | Unauthorized | Forbidden | NotFound | MethodNotAllowed | RequestTimeout
  | PayloadTooLarge | UriTooLong | RangeNotSatisfiable | RequestHeaderFieldsTooLarge
  | TooManyRequests | InternalServerError | BadGateway | NotImplemented | ServiceUnavailable
  | GatewayTimeout | HttpVersionNotSupported

primrec status_u16 :: "status_code \<Rightarrow> nat" where
  "status_u16 Ok = 200" | "status_u16 Created = 201" | "status_u16 Accepted = 202"
| "status_u16 NoContent = 204" | "status_u16 MovedPermanently = 301" | "status_u16 Found = 302"
| "status_u16 PartialContent = 206" | "status_u16 NotModified = 304" | "status_u16 BadRequest = 400"
| "status_u16 Unauthorized = 401" | "status_u16 Forbidden = 403" | "status_u16 NotFound = 404"
| "status_u16 MethodNotAllowed = 405" | "status_u16 RequestTimeout = 408"
| "status_u16 PayloadTooLarge = 413" | "status_u16 UriTooLong = 414"
| "status_u16 RangeNotSatisfiable = 416" | "status_u16 RequestHeaderFieldsTooLarge = 431"
| "status_u16 TooManyRequests = 429" | "status_u16 InternalServerError = 500"
| "status_u16 BadGateway = 502" | "status_u16 NotImplemented = 501"
| "status_u16 ServiceUnavailable = 503" | "status_u16 GatewayTimeout = 504"
| "status_u16 HttpVersionNotSupported = 505"

primrec reason_phrase :: "status_code \<Rightarrow> string" where
  "reason_phrase Ok = ''OK''" | "reason_phrase Created = ''Created''"
| "reason_phrase Accepted = ''Accepted''" | "reason_phrase NoContent = ''No Content''"
| "reason_phrase MovedPermanently = ''Moved Permanently''" | "reason_phrase Found = ''Found''"
| "reason_phrase PartialContent = ''Partial Content''" | "reason_phrase NotModified = ''Not Modified''"
| "reason_phrase BadRequest = ''Bad Request''" | "reason_phrase Unauthorized = ''Unauthorized''"
| "reason_phrase Forbidden = ''Forbidden''" | "reason_phrase NotFound = ''Not Found''"
| "reason_phrase MethodNotAllowed = ''Method Not Allowed''"
| "reason_phrase RequestTimeout = ''Request Timeout''"
| "reason_phrase PayloadTooLarge = ''Payload Too Large''"
| "reason_phrase UriTooLong = ''URI Too Long''"
| "reason_phrase RangeNotSatisfiable = ''Range Not Satisfiable''"
| "reason_phrase RequestHeaderFieldsTooLarge = ''Request Header Fields Too Large''"
| "reason_phrase TooManyRequests = ''Too Many Requests''"
| "reason_phrase InternalServerError = ''Internal Server Error''"
| "reason_phrase BadGateway = ''Bad Gateway''" | "reason_phrase NotImplemented = ''Not Implemented''"
| "reason_phrase ServiceUnavailable = ''Service Unavailable''"
| "reason_phrase GatewayTimeout = ''Gateway Timeout''"
| "reason_phrase HttpVersionNotSupported = ''HTTP Version Not Supported''"

definition status_from_u16 :: "nat \<Rightarrow> status_code" where
  "status_from_u16 c =
     (if c = 200 then Ok else if c = 201 then Created else if c = 202 then Accepted
      else if c = 204 then NoContent else if c = 301 then MovedPermanently else if c = 302 then Found
      else if c = 206 then PartialContent else if c = 304 then NotModified
      else if c = 400 then BadRequest else if c = 401 then Unauthorized else if c = 403 then Forbidden
      else if c = 404 then NotFound else if c = 405 then MethodNotAllowed
      else if c = 408 then RequestTimeout else if c = 413 then PayloadTooLarge
      else if c = 414 then UriTooLong else if c = 416 then RangeNotSatisfiable
      else if c = 431 then RequestHeaderFieldsTooLarge else if c = 429 then TooManyRequests
      else if c = 500 then InternalServerError else if c = 501 then NotImplemented
      else if c = 502 then BadGateway else if c = 503 then ServiceUnavailable
      else if c = 504 then GatewayTimeout else if c = 505 then HttpVersionNotSupported
      else if 400 \<le> c \<and> c \<le> 499 then BadRequest
      else InternalServerError)"

datatype http_parse_error =
    MalformedRequest | OversizedRequestLine | OversizedHeader | OversizedHeaderLine | TooManyHeaders
  | OversizedBody | Timeout | UnsupportedVersion | MissingHost | MalformedHost
  | ChunkedEncodingNotImplemented | ConflictingHeaders | MalformedContentLength | IoError
  | ConnectionClosed

fun error_status :: "http_parse_error \<Rightarrow> status_code" where
  "error_status UnsupportedVersion = HttpVersionNotSupported"
| "error_status MissingHost = BadRequest"
| "error_status MalformedHost = BadRequest"
| "error_status ChunkedEncodingNotImplemented = NotImplemented"
| "error_status ConflictingHeaders = BadRequest"
| "error_status MalformedContentLength = BadRequest"
| "error_status MalformedRequest = BadRequest"
| "error_status OversizedRequestLine = UriTooLong"
| "error_status OversizedHeader = RequestHeaderFieldsTooLarge"
| "error_status OversizedHeaderLine = RequestHeaderFieldsTooLarge"
| "error_status TooManyHeaders = RequestHeaderFieldsTooLarge"
| "error_status OversizedBody = PayloadTooLarge"
| "error_status Timeout = RequestTimeout"
| "error_status _ = BadRequest"

section \<open>Requests\<close>

record http_request =
  rq_method :: http_method
  rq_uri :: string
  rq_version :: string
  rq_headers :: headers
  rq_body :: bytes

record http_request_head =
  rh_method :: http_method
  rh_uri :: string
  rh_version :: string
  rh_headers :: headers
  rh_content_length :: nat
  rh_header_len :: nat

text \<open>The first header with the name, compared without case.\<close>

definition find_header :: "headers \<Rightarrow> string \<Rightarrow> string option" where
  "find_header hs name = map_option snd (find (\<lambda>h. eq_ignore_ascii_case (fst h) name) hs)"

definition get_header :: "http_request \<Rightarrow> string \<Rightarrow> string option" where
  "get_header r name = find_header (rq_headers r) name"

definition is_keep_alive :: "http_request \<Rightarrow> bool" where
  "is_keep_alive r =
     (let tokens = (case get_header r ''Connection'' of
                      None \<Rightarrow> [] | Some conn \<Rightarrow> map trim (split_char (CHR '','') conn))
      in if list_ex (\<lambda>t. eq_ignore_ascii_case t ''close'') tokens then False
         else if list_ex (\<lambda>t. eq_ignore_ascii_case t ''keep-alive'') tokens then True
         else rq_version r = ''HTTP/1.1'')"

definition into_request :: "http_request_head \<Rightarrow> bytes \<Rightarrow> http_request" where
  "into_request h body =
     \<lparr>rq_method = rh_method h, rq_uri = rh_uri h, rq_version = rh_version h,
      rq_headers = rh_headers h, rq_body = body\<rparr>"

section \<open>Parsing a request head\<close>

definition CRLF2 :: bytes where "CRLF2 = [0x0D, 0x0A, 0x0D, 0x0A]"

text \<open>Every line feed follows a carriage return and every carriage return precedes a line feed.\<close>

definition bare_crlf :: "bytes \<Rightarrow> bool" where
  "bare_crlf bs \<longleftrightarrow>
     list_ex (\<lambda>i. (bs ! i = 0x0A \<and> (i = 0 \<or> bs ! (i - 1) \<noteq> 0x0D))
                \<or> (bs ! i = 0x0D \<and> (i + 1 \<ge> length bs \<or> bs ! (i + 1) \<noteq> 0x0A)))
       [0..<length bs]"

text \<open>The request line: method, target and version, with the checks in the order of the source.\<close>

definition parse_request_line :: "server_config \<Rightarrow> string \<Rightarrow> http_parse_error + (http_method \<times> string \<times> string)" where
  "parse_request_line cfg line =
     (let parts = split_char (CHR '' '') line in
      if length parts \<noteq> 3 \<or> list_ex (\<lambda>p. p = [] \<or> CHR 0x09 \<in> set p) parts then Inl MalformedRequest
      else if \<not> list_all is_ascii_alphabetic (parts ! 0) then Inl MalformedRequest
      else
        let uri = parts ! 1 in
        if length uri > sc_max_uri_length cfg then Inl OversizedRequestLine
        else if length line > sc_max_header_line cfg then Inl OversizedHeaderLine
        else if list_ex (\<lambda>c. code c \<le> 31 \<or> code c = 127) uri then Inl MalformedRequest
        else if parts ! 2 \<noteq> ''HTTP/1.1'' then Inl UnsupportedVersion
        else Inr (method_from (parts ! 0), uri, parts ! 2))"

text \<open>The header loop: the headers, the host values and the content lengths collected so far.\<close>

fun parse_header_lines :: "server_config \<Rightarrow> string list \<Rightarrow> headers \<Rightarrow> string list \<Rightarrow> string list \<Rightarrow>
    http_parse_error + (headers \<times> string list \<times> string list)" where
  "parse_header_lines cfg [] hs hosts lens = Inr (hs, hosts, lens)"
| "parse_header_lines cfg (line # lines) hs hosts lens =
     (if trim line = [] then parse_header_lines cfg lines hs hosts lens
      else if length line > sc_max_header_line cfg then Inl OversizedHeaderLine
      else if length hs \<ge> sc_max_headers cfg then Inl TooManyHeaders
      else case split_once (CHR '':'') line of
             None \<Rightarrow> Inl MalformedRequest
           | Some (name, raw_value) \<Rightarrow>
               if name = [] \<or> \<not> list_all is_tchar name then Inl MalformedRequest
               else
                 let val = trim raw_value in
                 if contains_any val [CR, LF] then Inl MalformedRequest
                 else if eq_ignore_ascii_case name ''Host'' then
                   parse_header_lines cfg lines (hs @ [(name, val)]) (hosts @ [val]) lens
                 else if eq_ignore_ascii_case name ''Content-Length'' then
                   parse_header_lines cfg lines (hs @ [(name, val)]) hosts (lens @ [val])
                 else if eq_ignore_ascii_case name ''Transfer-Encoding'' then
                   Inl ChunkedEncodingNotImplemented
                 else parse_header_lines cfg lines (hs @ [(name, val)]) hosts lens)"

definition check_hosts :: "string list \<Rightarrow> http_parse_error option" where
  "check_hosts hosts =
     (if length hosts \<noteq> 1 \<or> trim (hosts ! 0) = [] then
        Some (if hosts = [] then MissingHost else MalformedHost)
      else None)"

definition content_length_of :: "server_config \<Rightarrow> string list \<Rightarrow> http_parse_error + nat" where
  "content_length_of cfg lens =
     (case lens of
        [] \<Rightarrow> Inr 0
      | first # _ \<Rightarrow>
          if list_ex (\<lambda>v. v \<noteq> first) lens then Inl ConflictingHeaders
          else case parse_usize first of
                 None \<Rightarrow> Inl MalformedContentLength
               | Some n \<Rightarrow> if n > sc_max_request_size cfg then Inl OversizedBody else Inr n)"

definition parse_head_text :: "server_config \<Rightarrow> nat \<Rightarrow> string \<Rightarrow> http_parse_error + http_request_head" where
  "parse_head_text cfg header_len text =
     (let lines = split_crlf text in
      case parse_request_line cfg (hd lines) of
        Inl e \<Rightarrow> Inl e
      | Inr (meth, uri, version) \<Rightarrow>
          (case parse_header_lines cfg (tl lines) [] [] [] of
             Inl e \<Rightarrow> Inl e
           | Inr (hs, hosts, lens) \<Rightarrow>
               (case check_hosts hosts of
                  Some e \<Rightarrow> Inl e
                | None \<Rightarrow>
                    (case content_length_of cfg lens of
                       Inl e \<Rightarrow> Inl e
                     | Inr n \<Rightarrow>
                         Inr \<lparr>rh_method = meth, rh_uri = uri, rh_version = version, rh_headers = hs,
                              rh_content_length = n, rh_header_len = header_len\<rparr>))))"

definition parse_http_request_head_from_buf_with_limits :: "bytes \<Rightarrow> server_config \<Rightarrow> http_parse_error + http_request_head option" where
  "parse_http_request_head_from_buf_with_limits buffer cfg =
     (case find_subslice buffer CRLF2 of
        None \<Rightarrow> if length buffer > sc_max_header_size cfg then Inl OversizedHeader else Inr None
      | Some header_end \<Rightarrow>
          if header_end + 4 > sc_max_header_size cfg then Inl OversizedHeader
          else
            let header_bytes = take header_end buffer in
            if bare_crlf header_bytes then Inl MalformedRequest
            else case from_utf8 header_bytes of
                   None \<Rightarrow> Inl MalformedRequest
                 | Some text \<Rightarrow>
                     (case parse_head_text cfg (header_end + 4) text of
                        Inl e \<Rightarrow> Inl e
                      | Inr h \<Rightarrow> Inr (Some h)))"

text \<open>The parser on the connection buffer: the remaining buffer, and the request if complete.\<close>

definition parse_http_request_from_buf_with_limits :: "bytes \<Rightarrow> server_config \<Rightarrow> bytes \<times> (http_parse_error + http_request option)" where
  "parse_http_request_from_buf_with_limits buffer cfg =
     (case parse_http_request_head_from_buf_with_limits buffer cfg of
        Inl e \<Rightarrow> (buffer, Inl e)
      | Inr None \<Rightarrow> (buffer, Inr None)
      | Inr (Some head) \<Rightarrow>
          (let total = min (rh_header_len head + rh_content_length head) usize_max in
           if length buffer < total then (buffer, Inr None)
           else (drop total buffer,
                 Inr (Some (into_request head (drop (rh_header_len head) (take total buffer)))))))"

definition parse_http_request_from_buf :: "bytes \<Rightarrow> bytes \<times> (http_parse_error + http_request option)" where
  "parse_http_request_from_buf buffer = parse_http_request_from_buf_with_limits buffer server_config_default"

section \<open>Responses\<close>

text \<open>
  An open file: what a clone of it positioned at an offset delivers when it is read, or the error
  of \<open>try_clone\<close> or \<open>seek\<close>.
\<close>

type_synonym file_handle = "nat \<Rightarrow> io_kind + source"

datatype body_source =
    BytesBody bytes
  | FileBody file_handle nat
  | FileRange file_handle nat nat
  | GzipFile file_handle nat nat

record http_response =
  rs_status :: status_code
  rs_headers :: headers
  rs_body :: body_source
  rs_close :: bool

definition response_new :: "status_code \<Rightarrow> http_response" where
  "response_new status =
     \<lparr>rs_status = status, rs_headers = [(''Server'', ''veysrs/0.6.1'')], rs_body = BytesBody [],
      rs_close = False\<rparr>"

definition with_header :: "http_response \<Rightarrow> string \<Rightarrow> string \<Rightarrow> http_response" where
  "with_header r name val =
     r\<lparr>rs_headers := rs_headers r @ [(remove_chars [CR, LF] name, remove_chars [CR, LF] val)]\<rparr>"

definition with_content :: "http_response \<Rightarrow> nat \<Rightarrow> string \<Rightarrow> body_source \<Rightarrow> http_response" where
  "with_content r len content_type body =
     r\<lparr>rs_headers := rs_headers r @ [(''Content-Length'', show_nat len), (''Content-Type'', content_type)],
       rs_body := body\<rparr>"

definition with_body :: "http_response \<Rightarrow> bytes \<Rightarrow> string \<Rightarrow> http_response" where
  "with_body r body content_type = with_content r (length body) content_type (BytesBody body)"

definition with_file :: "http_response \<Rightarrow> file_handle \<Rightarrow> nat \<Rightarrow> string \<Rightarrow> http_response" where
  "with_file r f file_size content_type = with_content r file_size content_type (FileBody f file_size)"

definition with_file_range :: "http_response \<Rightarrow> file_handle \<Rightarrow> nat \<Rightarrow> nat \<Rightarrow> string \<Rightarrow> http_response" where
  "with_file_range r f offset len content_type = with_content r len content_type (FileRange f offset len)"

definition set_close_connection :: "http_response \<Rightarrow> bool \<Rightarrow> http_response" where
  "set_close_connection r c = r\<lparr>rs_close := c\<rparr>"

definition body_len :: "http_response \<Rightarrow> nat" where
  "body_len r = (case rs_body r of
     BytesBody b \<Rightarrow> length b | FileBody _ n \<Rightarrow> n | FileRange _ _ n \<Rightarrow> n | GzipFile _ n _ \<Rightarrow> n)"

section \<open>Writing a response\<close>

text \<open>The result of an I/O operation: \<open>None\<close> is success. A failed write is an \<open>OtherIo\<close> error.\<close>

definition then_write :: "sink \<Rightarrow> bytes \<Rightarrow> (sink \<Rightarrow> sink \<times> io_kind option) \<Rightarrow> sink \<times> io_kind option" where
  "then_write s bs f = (case write_all s bs of (False, s') \<Rightarrow> (s', Some OtherIo) | (True, s') \<Rightarrow> f s')"

definition CRLF :: string where "CRLF = [CR, LF]"

definition header_line :: "string \<times> string \<Rightarrow> string" where
  "header_line h = fst h @ '': '' @ snd h @ CRLF"

definition response_head :: "http_response \<Rightarrow> string" where
  "response_head r =
     (let chunked = (case rs_body r of GzipFile _ _ _ \<Rightarrow> True | _ \<Rightarrow> False);
          shown = filter (\<lambda>h. \<not> (chunked \<and> eq_ignore_ascii_case (fst h) ''Content-Length'')) (rs_headers r);
          has_connection = list_ex (\<lambda>h. eq_ignore_ascii_case (fst h) ''Connection'') shown;
          has_te = list_ex (\<lambda>h. eq_ignore_ascii_case (fst h) ''Transfer-Encoding'') (rs_headers r)
      in ''HTTP/1.1 '' @ show_nat (status_u16 (rs_status r)) @ '' '' @ reason_phrase (rs_status r) @ CRLF
         @ concat (map header_line shown)
         @ (if has_connection then []
            else if rs_close r then ''Connection: close'' @ CRLF else ''Connection: keep-alive'' @ CRLF)
         @ (if chunked \<and> \<not> has_te then ''Transfer-Encoding: chunked'' @ CRLF else [])
         @ CRLF)"

definition CHUNK :: nat where "CHUNK = 65536"

lemma CHUNK_pos [simp]: "0 < CHUNK"
  by (simp add: CHUNK_def)

function copy_file :: "source \<Rightarrow> sink \<Rightarrow> sink \<times> io_kind option" where
  "copy_file src s =
     (case io_read src CHUNK of
        (Inl k, _) \<Rightarrow> (s, Some k)
      | (Inr bs, src') \<Rightarrow>
          if bs = [] then (s, None)
          else (case write_all s bs of
                  (False, s') \<Rightarrow> (s', Some OtherIo)
                | (True, s') \<Rightarrow> copy_file src' s'))"
  by pat_completeness auto
termination
  by (relation "measure (\<lambda>(src, s). source_size src)")
     (auto dest: io_read_progress)

declare copy_file.simps [simp del]

function copy_range :: "source \<Rightarrow> nat \<Rightarrow> sink \<Rightarrow> sink \<times> io_kind option" where
  "copy_range src remaining s =
     (if remaining = 0 then (s, None)
      else case io_read src (min remaining CHUNK) of
             (Inl k, _) \<Rightarrow> (s, Some k)
           | (Inr bs, src') \<Rightarrow>
               if bs = [] then (s, Some UnexpectedEof)
               else (case write_all s bs of
                       (False, s') \<Rightarrow> (s', Some OtherIo)
                     | (True, s') \<Rightarrow> copy_range src' (remaining - length bs) s'))"
  by pat_completeness auto
termination
  by (relation "measure (\<lambda>(src, n, s). source_size src)")
     (auto dest: io_read_progress)

declare copy_range.simps [simp del]

definition chunk_frame :: "bytes \<Rightarrow> bytes" where
  "chunk_frame bs = str_bytes (show_hex (length bs) @ CRLF) @ bs @ str_bytes CRLF"

text \<open>One framed chunk is three writes: the size line (its formatted pieces taken as one), the data, the line end.\<close>

function write_chunked :: "source \<Rightarrow> bool \<Rightarrow> sink \<Rightarrow> sink \<times> io_kind option" where
  "write_chunked src chunked s =
     (case io_read src CHUNK of
        (Inl k, _) \<Rightarrow> (s, Some k)
      | (Inr bs, src') \<Rightarrow>
          if bs = [] then
            (if chunked then then_write s (str_bytes (''0'' @ CRLF @ CRLF)) (\<lambda>s. (s, None)) else (s, None))
          else if chunked then
            (case write_all s (str_bytes (show_hex (length bs) @ CRLF)) of
               (False, s1) \<Rightarrow> (s1, Some OtherIo)
             | (True, s1) \<Rightarrow>
                 (case write_all s1 bs of
                    (False, s2) \<Rightarrow> (s2, Some OtherIo)
                  | (True, s2) \<Rightarrow>
                      (case write_all s2 (str_bytes CRLF) of
                         (False, s3) \<Rightarrow> (s3, Some OtherIo)
                       | (True, s3) \<Rightarrow> write_chunked src' chunked s3)))
          else (case write_all s bs of
                  (False, s1) \<Rightarrow> (s1, Some OtherIo)
                | (True, s1) \<Rightarrow> write_chunked src' chunked s1))"
  by pat_completeness auto
termination
  by (relation "measure (\<lambda>(src, c, s). source_size src)")
     (auto dest: io_read_progress)

declare write_chunked.simps [simp del]

text \<open>
  \<open>send_to\<close>. The compressor is \<open>flate2\<close>: a parameter \<open>gz\<close> that maps a level and a source to the
  compressed source. The final flush is a write of nothing.
\<close>

definition send_to :: "(nat \<Rightarrow> source \<Rightarrow> source) \<Rightarrow> http_response \<Rightarrow> sink \<Rightarrow> sink \<times> io_kind option" where
  "send_to gz r s =
     then_write s (str_bytes (response_head r)) (\<lambda>s.
       (case (case rs_body r of
                BytesBody b \<Rightarrow> if b = [] then (s, None) else then_write s b (\<lambda>s. (s, None))
              | FileBody f _ \<Rightarrow> (case f 0 of Inl k \<Rightarrow> (s, Some k) | Inr src \<Rightarrow> copy_file src s)
              | FileRange f offset len \<Rightarrow>
                  (case f offset of Inl k \<Rightarrow> (s, Some k) | Inr src \<Rightarrow> copy_range src len s)
              | GzipFile f _ level \<Rightarrow>
                  (case f 0 of Inl k \<Rightarrow> (s, Some k) | Inr src \<Rightarrow> write_chunked (gz level src) True s)) of
          (s, Some k) \<Rightarrow> (s, Some k)
        | (s, None) \<Rightarrow> then_write s [] (\<lambda>s. (s, None))))"

section \<open>What a parsed request guarantees\<close>

definition is_host :: "string \<times> string \<Rightarrow> bool" where
  "is_host h \<longleftrightarrow> eq_ignore_ascii_case (fst h) ''Host''"

definition is_length :: "string \<times> string \<Rightarrow> bool" where
  "is_length h \<longleftrightarrow> eq_ignore_ascii_case (fst h) ''Content-Length''"

definition clean_header :: "string \<times> string \<Rightarrow> bool" where
  "clean_header h \<longleftrightarrow> fst h \<noteq> [] \<and> list_all is_tchar (fst h) \<and> \<not> contains_any (snd h) [CR, LF]
     \<and> \<not> eq_ignore_ascii_case (fst h) ''Transfer-Encoding''"

lemma host_not_length: "is_host h \<Longrightarrow> \<not> is_length h"
  by (simp add: is_host_def is_length_def eq_ignore_ascii_case_def to_ascii_lowercase_def)

lemma host_not_te: "eq_ignore_ascii_case n ''Host'' \<Longrightarrow> \<not> eq_ignore_ascii_case n ''Transfer-Encoding''"
  "eq_ignore_ascii_case n ''Content-Length'' \<Longrightarrow> \<not> eq_ignore_ascii_case n ''Transfer-Encoding''"
  "eq_ignore_ascii_case n ''Content-Length'' \<Longrightarrow> \<not> eq_ignore_ascii_case n ''Host''"
  by (auto simp: eq_ignore_ascii_case_def to_ascii_lowercase_def)

text \<open>The collected hosts and lengths are those of the headers, and every header is clean.\<close>

definition collected :: "server_config \<Rightarrow> headers \<Rightarrow> string list \<Rightarrow> string list \<Rightarrow> bool" where
  "collected cfg hs hosts lens \<longleftrightarrow>
     list_all clean_header hs \<and> length hs \<le> sc_max_headers cfg
     \<and> hosts = map snd (filter is_host hs) \<and> lens = map snd (filter is_length hs)"

lemma parse_header_lines_collected:
  "parse_header_lines cfg ls hs hosts lens = Inr (hs', hosts', lens') \<Longrightarrow> collected cfg hs hosts lens \<Longrightarrow>
   collected cfg hs' hosts' lens'"
proof (induction cfg ls hs hosts lens rule: parse_header_lines.induct)
  case (2 cfg line ls hs hosts lens)
  show ?case
  proof (cases "trim line = []")
    case True
    with 2 show ?thesis by simp
  next
    case False
    then obtain n v where nv: "split_once (CHR '':'') line = Some (n, v)" "n \<noteq> []" "list_all is_tchar n"
      "\<not> contains_any (trim v) [CR, LF]" "length hs < sc_max_headers cfg" "\<not> length line > sc_max_header_line cfg"
      using "2.prems"(1) by (auto simp: Let_def split: if_splits option.splits)
    let ?h = "(n, trim v)"
    consider (host) "eq_ignore_ascii_case n ''Host''"
      | (len) "\<not> eq_ignore_ascii_case n ''Host''" "eq_ignore_ascii_case n ''Content-Length''"
      | (other) "\<not> eq_ignore_ascii_case n ''Host''" "\<not> eq_ignore_ascii_case n ''Content-Length''"
        "\<not> eq_ignore_ascii_case n ''Transfer-Encoding''"
      using "2.prems"(1) False nv by (auto simp: Let_def split: if_splits)
    then show ?thesis
    proof cases
      case host
      then have "collected cfg (hs @ [?h]) (hosts @ [trim v]) lens"
        using "2.prems"(2) nv host_not_te host_not_length [of ?h]
        by (auto simp: collected_def clean_header_def is_host_def)
      with "2.IH"(2) [OF False] host nv "2.prems"(1) False show ?thesis by (simp add: Let_def)
    next
      case len
      then have "collected cfg (hs @ [?h]) hosts (lens @ [trim v])"
        using "2.prems"(2) nv host_not_te by (auto simp: collected_def clean_header_def is_host_def is_length_def)
      with "2.IH"(3) [OF False] len nv "2.prems"(1) False show ?thesis by (simp add: Let_def)
    next
      case other
      then have "collected cfg (hs @ [?h]) hosts lens"
        using "2.prems"(2) nv by (auto simp: collected_def clean_header_def is_host_def is_length_def)
      with "2.IH"(4) [OF False] other nv "2.prems"(1) False show ?thesis by (simp add: Let_def)
    qed
  qed
qed simp

definition head_ok :: "server_config \<Rightarrow> http_request_head \<Rightarrow> bool" where
  "head_ok cfg h \<longleftrightarrow>
     rh_version h = ''HTTP/1.1'' \<and> length (rh_uri h) \<le> sc_max_uri_length cfg
     \<and> \<not> list_ex (\<lambda>c. code c \<le> 31 \<or> code c = 127) (rh_uri h)
     \<and> list_all clean_header (rh_headers h) \<and> length (rh_headers h) \<le> sc_max_headers cfg
     \<and> length (filter is_host (rh_headers h)) = 1
     \<and> rh_content_length h \<le> sc_max_request_size cfg
     \<and> (\<forall>l \<in> set (filter is_length (rh_headers h)). parse_usize (snd l) = Some (rh_content_length h))
     \<and> (filter is_length (rh_headers h) = [] \<longrightarrow> rh_content_length h = 0)"

lemma parse_request_line_ok:
  "parse_request_line cfg l = Inr (m, uri, ver) \<Longrightarrow>
   ver = ''HTTP/1.1'' \<and> length uri \<le> sc_max_uri_length cfg \<and> \<not> list_ex (\<lambda>c. code c \<le> 31 \<or> code c = 127) uri"
  by (auto simp: parse_request_line_def Let_def split: if_splits)

lemma content_length_of_ok:
  assumes "content_length_of cfg lens = Inr n"
  shows "n \<le> sc_max_request_size cfg \<and> (\<forall>l \<in> set lens. parse_usize l = Some n) \<and> (lens = [] \<longrightarrow> n = 0)"
proof (cases lens)
  case (Cons first r)
  then have "\<forall>l \<in> set lens. l = first" "parse_usize first = Some n" "n \<le> sc_max_request_size cfg"
    using assms by (auto simp: content_length_of_def list_ex_iff split: if_splits option.splits)
  with Cons show ?thesis by auto
qed (use assms in \<open>simp add: content_length_of_def\<close>)

lemma parse_head_text_ok:
  assumes "parse_head_text cfg k t = Inr h"
  shows "head_ok cfg h \<and> rh_header_len h = k"
proof -
  obtain m uri ver hs hosts lens n where
    p: "parse_request_line cfg (hd (split_crlf t)) = Inr (m, uri, ver)"
       "parse_header_lines cfg (tl (split_crlf t)) [] [] [] = Inr (hs, hosts, lens)"
       "check_hosts hosts = None" "content_length_of cfg lens = Inr n"
       "h = \<lparr>rh_method = m, rh_uri = uri, rh_version = ver, rh_headers = hs,
             rh_content_length = n, rh_header_len = k\<rparr>"
    using assms by (auto simp: parse_head_text_def Let_def split: sum.splits option.splits)
  have "collected cfg hs hosts lens"
    using parse_header_lines_collected [OF p(2)] by (simp add: collected_def)
  moreover have "length hosts = 1" using p(3) by (auto simp: check_hosts_def split: if_splits)
  ultimately show ?thesis
    using parse_request_line_ok [OF p(1)] content_length_of_ok [OF p(4)] p(5)
    by (auto simp: head_ok_def collected_def)
qed

lemma parse_head_ok:
  assumes "parse_http_request_head_from_buf_with_limits buf cfg = Inr (Some h)"
  shows "head_ok cfg h \<and> rh_header_len h \<le> sc_max_header_size cfg \<and> rh_header_len h \<le> length buf
    \<and> suffix CRLF2 (take (rh_header_len h) buf)"
proof -
  obtain e t where e: "find_subslice buf CRLF2 = Some e" "e + 4 \<le> sc_max_header_size cfg"
    "parse_head_text cfg (e + 4) t = Inr h"
    using assms by (auto simp: parse_http_request_head_from_buf_with_limits_def Let_def split: option.splits if_splits sum.splits)
  have "e + 4 \<le> length buf" using find_subslice_bound [OF e(1)] by (simp add: CRLF2_def)
  moreover have "take (e + 4) buf = take e buf @ CRLF2"
    using find_subslice_at [OF e(1)] unfolding take_add by (simp add: CRLF2_def eval_nat_numeral)
  ultimately show ?thesis using parse_head_text_ok [OF e(3)] e(2) by (auto simp: suffix_def)
qed

text \<open>
  C6. A request that the HTTP/1.1 parser accepts is framed unambiguously: the buffer is its head,
  which ends with the blank line, its body and the untouched rest; the body has exactly the length
  that every Content-Length header states (none means no body), there is no Transfer-Encoding
  header and exactly one Host header, and every configured limit holds.
\<close>

theorem parse_request_framing:
  assumes "parse_http_request_from_buf_with_limits buf cfg = (rest, Inr (Some r))" "length buf < usize_max"
  shows "\<exists>hd_bytes. buf = hd_bytes @ rq_body r @ rest \<and> suffix CRLF2 hd_bytes
    \<and> length hd_bytes \<le> sc_max_header_size cfg \<and> length (rq_body r) \<le> sc_max_request_size cfg
    \<and> length (rq_uri r) \<le> sc_max_uri_length cfg \<and> length (rq_headers r) \<le> sc_max_headers cfg
    \<and> (\<forall>h \<in> set (rq_headers r). is_length h \<longrightarrow> parse_usize (snd h) = Some (length (rq_body r)))
    \<and> (list_all (\<lambda>h. \<not> is_length h) (rq_headers r) \<longrightarrow> rq_body r = [])
    \<and> list_all clean_header (rq_headers r) \<and> length (filter is_host (rq_headers r)) = 1"
proof -
  obtain h where h: "parse_http_request_head_from_buf_with_limits buf cfg = Inr (Some h)"
    using assms(1) by (auto simp: parse_http_request_from_buf_with_limits_def split: sum.splits option.splits)
  let ?n = "rh_header_len h" and ?t = "rh_header_len h + rh_content_length h"
  have t: "?t \<le> length buf" "rest = drop ?t buf" "r = into_request h (drop ?n (take ?t buf))"
    using assms by (auto simp: parse_http_request_from_buf_with_limits_def h Let_def min_def split: if_splits)
  note ok = parse_head_ok [OF h]
  have "buf = take ?n buf @ drop ?n (take ?t buf) @ drop ?t buf"
    by (metis append.assoc append_take_drop_id le_add1 min.absorb1 take_take)
  moreover have "length (drop ?n (take ?t buf)) = rh_content_length h" using t(1) by simp
  ultimately show ?thesis
    using ok t by (intro exI [of _ "take ?n buf"]) (auto simp: into_request_def head_ok_def list_all_iff filter_empty_conv)
qed

theorem parse_request_framing_witness:
  "let buf = str_bytes (''POST /a HTTP/1.1'' @ CRLF @ ''Host: x'' @ CRLF @ ''Content-Length: 2'' @ CRLF @ CRLF @ ''okGET'');
       r = \<lparr>rq_method = Post, rq_uri = ''/a'', rq_version = ''HTTP/1.1'',
            rq_headers = [(''Host'', ''x''), (''Content-Length'', ''2'')], rq_body = str_bytes ''ok''\<rparr>
   in length buf < usize_max \<and> parse_http_request_from_buf_with_limits buf server_config_default = (str_bytes ''GET'', Inr (Some r))
      \<and> (\<exists>hd_bytes. buf = hd_bytes @ rq_body r @ str_bytes ''GET'' \<and> suffix CRLF2 hd_bytes)"
proof -
  let ?buf = "str_bytes (''POST /a HTTP/1.1'' @ CRLF @ ''Host: x'' @ CRLF @ ''Content-Length: 2'' @ CRLF @ CRLF @ ''okGET'')"
  let ?r = "\<lparr>rq_method = Post, rq_uri = ''/a'', rq_version = ''HTTP/1.1'',
            rq_headers = [(''Host'', ''x''), (''Content-Length'', ''2'')], rq_body = str_bytes ''ok''\<rparr>"
  have "length ?buf < usize_max" by (simp add: CRLF_def)
  moreover have "parse_http_request_from_buf_with_limits ?buf server_config_default = (str_bytes ''GET'', Inr (Some ?r))" by code_simp
  ultimately show ?thesis using parse_request_framing [of ?buf server_config_default "str_bytes ''GET''" ?r]
    unfolding Let_def by blast
qed

section \<open>Parsing does not depend on how the bytes arrive\<close>

lemma parse_head_append_same:
  assumes "find_subslice buf CRLF2 = Some e"
  shows "parse_http_request_head_from_buf_with_limits (buf @ tl_bytes) cfg = parse_http_request_head_from_buf_with_limits buf cfg"
proof -
  have "e \<le> length buf" using find_subslice_bound [OF assms] by simp
  with assms find_subslice_append [OF assms, of tl_bytes] show ?thesis by (simp add: parse_http_request_head_from_buf_with_limits_def)
qed

lemma parse_head_append:
  assumes "parse_http_request_head_from_buf_with_limits buf cfg = Inr (Some h)"
  shows "parse_http_request_head_from_buf_with_limits (buf @ tl_bytes) cfg = Inr (Some h)"
proof -
  obtain e where e: "find_subslice buf CRLF2 = Some e"
    using assms by (auto simp: parse_http_request_head_from_buf_with_limits_def split: option.splits if_splits)
  with assms show ?thesis by (simp add: parse_head_append_same)
qed

lemma parse_head_append_error:
  assumes "parse_http_request_head_from_buf_with_limits buf cfg = Inl err"
  shows "parse_http_request_head_from_buf_with_limits (buf @ tl_bytes) cfg = Inl err"
proof (cases "find_subslice buf CRLF2")
  case (Some e)
  with assms show ?thesis by (simp add: parse_head_append_same)
next
  case None
  then have big: "length buf > sc_max_header_size cfg" "err = OversizedHeader"
    using assms by (auto simp: parse_http_request_head_from_buf_with_limits_def split: if_splits)
  show ?thesis
  proof (cases "find_subslice (buf @ tl_bytes) CRLF2")
    case (Some e)
    have "length buf < e + 4" using find_subslice_later [OF None Some] by (simp add: CRLF2_def)
    with Some big show ?thesis by (simp add: parse_http_request_head_from_buf_with_limits_def)
  qed (use big in \<open>simp add: parse_http_request_head_from_buf_with_limits_def\<close>)
qed

text \<open>
  C7. The parser gives the same answer however the bytes arrive: once it accepts a request or
  rejects the input, any further bytes leave the request and the error unchanged and only extend
  the rest of the buffer, so pipelined requests are parsed as if each came alone.
\<close>

theorem parse_request_incremental:
  "(parse_http_request_from_buf_with_limits buf cfg = (rest, Inr (Some r)) \<longrightarrow> parse_http_request_from_buf_with_limits (buf @ tl_bytes) cfg = (rest @ tl_bytes, Inr (Some r)))
   \<and> (parse_http_request_from_buf_with_limits buf cfg = (rest, Inl err) \<longrightarrow> parse_http_request_from_buf_with_limits (buf @ tl_bytes) cfg = (rest @ tl_bytes, Inl err))"
proof (intro conjI impI)
  assume p: "parse_http_request_from_buf_with_limits buf cfg = (rest, Inr (Some r))"
  then obtain h where h: "parse_http_request_head_from_buf_with_limits buf cfg = Inr (Some h)"
    by (auto simp: parse_http_request_from_buf_with_limits_def split: sum.splits option.splits)
  with p parse_head_append [OF h, of tl_bytes] parse_head_ok [OF h]
  show "parse_http_request_from_buf_with_limits (buf @ tl_bytes) cfg = (rest @ tl_bytes, Inr (Some r))"
    by (auto simp: parse_http_request_from_buf_with_limits_def Let_def split: if_splits)
next
  assume p: "parse_http_request_from_buf_with_limits buf cfg = (rest, Inl err)"
  then have "parse_http_request_head_from_buf_with_limits buf cfg = Inl err" "rest = buf"
    by (auto simp: parse_http_request_from_buf_with_limits_def Let_def split: sum.splits option.splits if_splits)
  then show "parse_http_request_from_buf_with_limits (buf @ tl_bytes) cfg = (rest @ tl_bytes, Inl err)"
    using parse_head_append_error [of buf cfg err tl_bytes] by (simp add: parse_http_request_from_buf_with_limits_def)
qed

theorem parse_request_incremental_witness:
  "let a = str_bytes (''GET /1 HTTP/1.1'' @ CRLF @ ''Host: x'' @ CRLF @ CRLF);
       b = str_bytes (''GET /2 HTTP/1.1'' @ CRLF);
       r = \<lparr>rq_method = Get, rq_uri = ''/1'', rq_version = ''HTTP/1.1'', rq_headers = [(''Host'', ''x'')], rq_body = []\<rparr>
   in parse_http_request_from_buf_with_limits a server_config_default = ([], Inr (Some r))
      \<and> parse_http_request_from_buf_with_limits (a @ b) server_config_default = (b, Inr (Some r))"
proof -
  let ?a = "str_bytes (''GET /1 HTTP/1.1'' @ CRLF @ ''Host: x'' @ CRLF @ CRLF)"
  let ?b = "str_bytes (''GET /2 HTTP/1.1'' @ CRLF)"
  let ?r = "\<lparr>rq_method = Get, rq_uri = ''/1'', rq_version = ''HTTP/1.1'', rq_headers = [(''Host'', ''x'')], rq_body = []\<rparr>"
  have "parse_http_request_from_buf_with_limits ?a server_config_default = ([], Inr (Some ?r))" by code_simp
  then show ?thesis
    using parse_request_incremental [of ?a server_config_default "[]" ?r ?b MalformedRequest]
    unfolding Let_def by simp
qed

section \<open>Status codes\<close>

lemma status_from_u16_code [simp]: "status_from_u16 (status_u16 s) = s"
  by (cases s) (simp_all add: status_from_u16_def)

section \<open>Bodies on the wire\<close>

lemma write_all_good:
  assumes "failing s = (\<lambda>_. False)"
  shows "write_all s bs = (True, s\<lparr>written := written s @ bs, n_writes := Suc (n_writes s)\<rparr>)"
  using assms by (simp add: write_all_def)

text \<open>The framed form of the chunks a clean source delivers, each read at most \<open>CHUNK\<close> bytes.\<close>

function chunk_reads :: "source \<Rightarrow> bytes list" where
  "chunk_reads src =
     (case io_read src CHUNK of
        (Inl k, _) \<Rightarrow> []
      | (Inr bs, src') \<Rightarrow> if bs = [] then [] else bs # chunk_reads src')"
  by pat_completeness auto
termination
  by (relation "measure source_size") (auto dest: io_read_progress)

declare chunk_reads.simps [simp del]

lemma chunk_reads_bytes:
  "source_clean src \<Longrightarrow> concat (chunk_reads src) = source_bytes src"
proof (induction src rule: chunk_reads.induct)
  case (1 src)
  obtain r src' where e: "io_read src CHUNK = (r, src')" by fastforce
  from io_read_clean [OF "1.prems" CHUNK_pos e] obtain bs where
    bs: "source_clean src'" "r = Inr bs" "source_bytes src = bs @ source_bytes src'" "bs = [] \<longleftrightarrow> src = []" by blast
  with "1.IH" [of r src' bs] e show ?case
    by (subst chunk_reads.simps) auto
qed

lemma chunk_reads_ne: "c \<in> set (chunk_reads src) \<Longrightarrow> c \<noteq> [] \<and> length c \<le> CHUNK"
proof (induction src rule: chunk_reads.induct)
  case (1 src)
  then show ?case
    by (subst (asm) (2) chunk_reads.simps)
       (auto split: prod.splits sum.splits if_splits dest: io_read_bound [OF sym])
qed

lemma write_chunked_output:
  assumes "source_clean src" "failing s = (\<lambda>_. False)"
  shows "\<exists>s'. write_chunked src True s = (s', None) \<and> failing s' = (\<lambda>_. False)
    \<and> written s' = written s @ concat (map chunk_frame (chunk_reads src)) @ str_bytes (''0'' @ CRLF @ CRLF)"
  using assms
proof (induction src "True" s rule: write_chunked.induct)
  case (1 src s)
  obtain r src' where e: "io_read src CHUNK = (r, src')" by fastforce
  from io_read_clean [OF "1.prems"(1) CHUNK_pos e] obtain bs where
    bs: "source_clean src'" "r = Inr bs" by blast
  show ?case
  proof (cases "bs = []")
    case True
    with bs e 1 show ?thesis
      by (subst write_chunked.simps, subst chunk_reads.simps) (simp add: then_write_def write_all_good)
  next
    case False
    define s3 where "s3 = s\<lparr>written := ((written s @ str_bytes (show_hex (length bs) @ CRLF)) @ bs) @ str_bytes CRLF,
      n_writes := Suc (Suc (Suc (n_writes s)))\<rparr>"
    have step: "write_chunked src True s = write_chunked src' True s3"
      using False bs e "1.prems"(2) by (subst write_chunked.simps) (simp add: write_all_good s3_def)
    have s3: "failing s3 = (\<lambda>_. False)" using "1.prems"(2) by (simp add: s3_def)
    have "\<exists>s'. write_chunked src' True s3 = (s', None) \<and> failing s' = (\<lambda>_. False)
      \<and> written s' = written s3 @ concat (map chunk_frame (chunk_reads src')) @ str_bytes (''0'' @ CRLF @ CRLF)"
      by (rule "1.hyps"(1) [OF e [symmetric] bs(2) False TrueI write_all_good [symmetric] refl
            write_all_good [symmetric] refl _ refl bs(1) s3])
         (simp_all add: "1.prems"(2) write_all_good s3_def)
    moreover have "chunk_reads src = bs # chunk_reads src'"
      using False bs e by (subst chunk_reads.simps) simp
    ultimately show ?thesis by (simp add: step s3_def chunk_frame_def)
  qed
qed

text \<open>
  The chunked transfer coding as a receiver reads it (RFC 9112): a size line in hexadecimal, the
  data, a line end; a zero size and an empty line end the body.
\<close>

definition crlf_bytes :: bytes where "crlf_bytes = [0x0D, 0x0A]"

function dechunk :: "bytes \<Rightarrow> bytes option" where
  "dechunk bs =
     (case find_subslice bs crlf_bytes of
        None \<Rightarrow> None
      | Some i \<Rightarrow>
          (case from_str_radix 16 usize_max (map char_of_byte (take i bs)) of
             None \<Rightarrow> None
           | Some n \<Rightarrow>
               let rest = drop (i + 2) bs in
               if n = 0 then (if rest = crlf_bytes then Some [] else None)
               else if take 2 (drop n rest) \<noteq> crlf_bytes then None
               else map_option (\<lambda>ds. take n rest @ ds) (dechunk (drop (n + 2) rest))))"
  by pat_completeness auto
termination
  by (relation "measure length") (auto dest!: find_subslice_bound simp: crlf_bytes_def)

declare dechunk.simps [simp del]

lemma str_bytes_CRLF [simp]: "str_bytes CRLF = crlf_bytes"
  by (simp add: str_bytes_def CRLF_def crlf_bytes_def byte_of_char_def)

lemma str_bytes_append [simp]: "str_bytes (a @ b) = str_bytes a @ str_bytes b"
  by (simp add: str_bytes_def)

lemma str_bytes_Cons: "str_bytes (c # s) = byte_of_char c # str_bytes s" "str_bytes [] = []"
  by (simp_all add: str_bytes_def)

lemma find_subslice_skip:
  "x \<notin> set xs \<Longrightarrow> find_subslice (xs @ x # ys @ zs) (x # ys) = Some (length xs)"
  by (induction xs) (auto simp: prefix_def)

lemma digit_char_no_cr: "d < 16 \<Longrightarrow> digit_char d \<noteq> CR"
  by (auto simp: digit_char_def dest: arg_cong [of _ _ "of_char :: char \<Rightarrow> nat"])

lemma hex_no_cr: "0x0D \<notin> set (str_bytes (show_hex n))"
proof
  assume "0x0D \<in> set (str_bytes (show_hex n))"
  then obtain c where c: "c \<in> set (show_hex n)" "byte_of_char c = 0x0D" by (auto simp: str_bytes_def)
  moreover have "char_of_byte 0x0D = CR" by code_simp
  ultimately have "c = CR" using char_of_byte_of_char [of c] by simp
  moreover obtain d where "d < 16" "c = digit_char d" using show_radix_digits [OF _ c(1)] by auto
  ultimately show False using digit_char_no_cr by simp
qed

lemma dechunk_size_line:
  assumes "n \<le> usize_max"
  shows "dechunk (str_bytes (show_hex n) @ crlf_bytes @ rest) =
    (if n = 0 then (if rest = crlf_bytes then Some [] else None)
     else if take 2 (drop n rest) \<noteq> crlf_bytes then None
     else map_option (\<lambda>ds. take n rest @ ds) (dechunk (drop (n + 2) rest)))"
proof -
  have "find_subslice (str_bytes (show_hex n) @ crlf_bytes @ rest) crlf_bytes = Some (length (show_hex n))"
    using find_subslice_skip [OF hex_no_cr, of n "[0x0A]" rest] by (simp add: crlf_bytes_def)
  moreover have "map char_of_byte (take (length (show_hex n)) (str_bytes (show_hex n) @ crlf_bytes @ rest)) = show_hex n"
    by (simp add: str_bytes_def comp_def)
  ultimately show ?thesis
    using from_str_radix_show [of 16 n usize_max] assms
    by (subst dechunk.simps) (simp add: crlf_bytes_def Let_def)
qed

lemma dechunk_frames:
  "\<forall>c \<in> set cs. c \<noteq> [] \<and> length c \<le> usize_max \<Longrightarrow>
   dechunk (concat (map chunk_frame cs) @ str_bytes (''0'' @ CRLF @ CRLF)) = Some (concat cs)"
proof (induction cs)
  case Nil
  have "show_hex 0 = ''0''" by code_simp
  with dechunk_size_line [of 0 crlf_bytes] show ?case by (simp add: str_bytes_Cons)
next
  case (Cons c cs)
  let ?z = "concat (map chunk_frame cs) @ str_bytes (''0'' @ CRLF @ CRLF)"
  have z: "dechunk ?z = Some (concat cs)" using Cons by simp
  have "concat (map chunk_frame (c # cs)) @ str_bytes (''0'' @ CRLF @ CRLF)
      = str_bytes (show_hex (length c)) @ crlf_bytes @ (c @ crlf_bytes @ ?z)"
    by (simp add: chunk_frame_def)
  moreover have "take 2 (drop (length c) (c @ crlf_bytes @ ?z)) = crlf_bytes"
    "drop (length c + 2) (c @ crlf_bytes @ ?z) = ?z" "take (length c) (c @ crlf_bytes @ ?z) = c"
    by (simp_all add: crlf_bytes_def)
  ultimately show ?case
    using dechunk_size_line [of "length c" "c @ crlf_bytes @ ?z"] Cons.prems z
    by (simp only: if_False simp_thms option.map concat.simps) simp
qed

text \<open>
  C8. The body of a compressed file reaches the peer intact: for every file and every compressor
  whose output can be read without error, \<open>send_to\<close> writes the response head and a chunked body
  that a conforming receiver decodes to exactly the compressor's output, however the reads cut it.
\<close>

theorem send_gzip_chunked:
  assumes "rs_body r = GzipFile f len level" "f 0 = Inr src" "source_clean (gz level src)"
    "failing s = (\<lambda>_. False)" "written s = []"
  shows "\<exists>s' wire. send_to gz r s = (s', None) \<and> written s' = str_bytes (response_head r) @ wire
    \<and> dechunk wire = Some (source_bytes (gz level src))"
proof -
  let ?src = "gz level src" and ?s1 = "s\<lparr>written := str_bytes (response_head r), n_writes := Suc (n_writes s)\<rparr>"
  let ?wire = "concat (map chunk_frame (chunk_reads ?src)) @ str_bytes (''0'' @ CRLF @ CRLF)"
  have f1: "failing ?s1 = (\<lambda>_. False)" using assms(4) by simp
  from write_chunked_output [OF assms(3) f1] obtain s2 where
    s2: "write_chunked ?src True ?s1 = (s2, None)" "written s2 = str_bytes (response_head r) @ ?wire"
    "failing s2 = (\<lambda>_. False)" by auto
  then have "send_to gz r s = (s2\<lparr>n_writes := Suc (n_writes s2)\<rparr>, None)"
    using assms by (simp add: send_to_def then_write_def write_all_good)
  moreover have "dechunk ?wire = Some (source_bytes ?src)"
    using dechunk_frames [of "chunk_reads ?src"] chunk_reads_ne chunk_reads_bytes [OF assms(3)]
    by (fastforce simp: CHUNK_def)
  ultimately show ?thesis using s2(2) by (intro exI [of _ "s2\<lparr>n_writes := Suc (n_writes s2)\<rparr>"] exI [of _ ?wire]) simp
qed

theorem send_gzip_chunked_witness:
  "\<exists>s' wire. send_to (\<lambda>_ src. src) ((response_new Ok)\<lparr>rs_body := GzipFile (\<lambda>_. Inr [Chunk [1, 2], Chunk [3]]) 3 6\<rparr>) good_sink
      = (s', None)
    \<and> written s' = str_bytes (response_head ((response_new Ok)\<lparr>rs_body := GzipFile (\<lambda>_. Inr [Chunk [1, 2], Chunk [3]]) 3 6\<rparr>)) @ wire
    \<and> dechunk wire = Some [1, 2, 3]"
  using send_gzip_chunked [of "(response_new Ok)\<lparr>rs_body := GzipFile (\<lambda>_. Inr [Chunk [1, 2], Chunk [3]]) 3 6\<rparr>"
      "\<lambda>_. Inr [Chunk [1, 2], Chunk [3]]" 3 6 "[Chunk [1, 2], Chunk [3]]" "\<lambda>_ src. src" good_sink]
  by (simp add: good_sink_def)

section \<open>Response heads\<close>

lemma split_crlf_line:
  "CR \<notin> set l \<Longrightarrow> split_crlf (l @ CRLF @ rest) = l # split_crlf rest"
proof (induction l)
  case (Cons c l)
  then obtain y ys where "l @ CRLF @ rest = y # ys" by (cases l) (auto simp: CRLF_def)
  with Cons show ?case by auto
qed (simp add: CRLF_def)

lemma split_crlf_lines:
  "\<forall>l \<in> set ls. CR \<notin> set l \<Longrightarrow> split_crlf (concat (map (\<lambda>l. l @ CRLF) ls) @ rest) = ls @ split_crlf rest"
  by (induction ls) (simp_all add: split_crlf_line)

lemma show_nat_no_cr: "CR \<notin> set (show_nat n)"
proof
  assume "CR \<in> set (show_nat n)"
  then obtain d where "d < 10" "CR = digit_char d" using show_radix_digits [of 10 CR n] by auto
  then show False using digit_char_no_cr [of d] by simp
qed

definition status_line :: "status_code \<Rightarrow> string" where
  "status_line st = ''HTTP/1.1 '' @ show_nat (status_u16 st) @ '' '' @ reason_phrase st"

lemma status_line_no_cr: "CR \<notin> set (status_line st)"
proof -
  have "CR \<notin> set (reason_phrase st)" by (cases st) simp_all
  then show ?thesis by (simp add: status_line_def show_nat_no_cr)
qed

definition sanitized :: "string \<times> string \<Rightarrow> string \<times> string" where
  "sanitized h = (remove_chars [CR, LF] (fst h), remove_chars [CR, LF] (snd h))"

definition with_headers :: "http_response \<Rightarrow> headers \<Rightarrow> http_response" where
  "with_headers = foldl (\<lambda>r h. with_header r (fst h) (snd h))"

lemma with_headers_fields:
  "rs_headers (with_headers r hs) = rs_headers r @ map sanitized hs
   \<and> rs_status (with_headers r hs) = rs_status r \<and> rs_body (with_headers r hs) = rs_body r
   \<and> rs_close (with_headers r hs) = rs_close r"
  unfolding with_headers_def
  by (induction hs arbitrary: r) (simp_all add: with_header_def sanitized_def)

definition connection_lines :: "http_response \<Rightarrow> string list" where
  "connection_lines r =
     (if list_ex (\<lambda>h. eq_ignore_ascii_case (fst h) ''Connection'') (rs_headers r) then []
      else if rs_close r then [''Connection: close''] else [''Connection: keep-alive''])"

lemma response_head_lines:
  assumes "\<forall>h \<in> set (rs_headers r). CR \<notin> set (fst h) \<and> CR \<notin> set (snd h)" "rs_body r = BytesBody b"
  shows "split_crlf (response_head r) =
    status_line (rs_status r) # map (\<lambda>h. fst h @ '': '' @ snd h) (rs_headers r) @ connection_lines r @ [[], []]"
proof -
  let ?ls = "status_line (rs_status r) # map (\<lambda>h. fst h @ '': '' @ snd h) (rs_headers r) @ connection_lines r"
  have "response_head r = concat (map (\<lambda>l. l @ CRLF) ?ls) @ CRLF"
    using assms(2)
    by (simp add: response_head_def connection_lines_def status_line_def header_line_def [abs_def] comp_def Let_def)
  moreover have "\<forall>l \<in> set ?ls. CR \<notin> set l"
    using assms(1) by (auto simp: status_line_no_cr connection_lines_def)
  moreover have "split_crlf CRLF = [[], []]" by (simp add: CRLF_def)
  ultimately show ?thesis using split_crlf_lines [of ?ls CRLF] by simp
qed


end
