(* ===== verification/Negotiation.thy ===== *)
theory Negotiation
  imports Http
begin

text \<open>
  Content negotiation as \<open>src/src/server/http2/connection.rs\<close>, \<open>src/src/server/proxy.rs\<close> and
  \<open>src/src/server/fastcgi.rs\<close> share it: the \<open>Accept-Encoding\<close> header with its quality values, and
  the header edits of a compressed response. Of a quality value only its sign is used, so the
  text of an \<open>f32\<close> is read as far as deciding whether it is greater than zero.
\<close>

section \<open>The sign of a decimal text\<close>

definition digits_nat :: "string \<Rightarrow> nat" where
  "digits_nat ds = (case digits_val 10 0 ds of Some n \<Rightarrow> n | None \<Rightarrow> 0)"

definition take_sign :: "string \<Rightarrow> bool \<times> string" where
  "take_sign s = (case s of
     [] \<Rightarrow> (False, [])
   | c # cs \<Rightarrow> if c = CHR ''-'' then (True, cs) else if c = CHR ''+'' then (False, cs) else (False, s))"

text \<open>
  Digits, an optional point with digits, an optional exponent: the integer mantissa and the
  decimal exponent. At least one digit is needed before or after the point.
\<close>

definition decimal_parts :: "string \<Rightarrow> (nat \<times> int) option" where
  "decimal_parts s =
     (let i = takeWhile is_ascii_digit s; r = dropWhile is_ascii_digit s;
          (f, r') = (case r of
             [] \<Rightarrow> ([], [])
           | c # cs \<Rightarrow> if c = CHR ''.'' then (takeWhile is_ascii_digit cs, dropWhile is_ascii_digit cs) else ([], r));
          m = digits_nat (i @ f)
      in if i = [] \<and> f = [] then None
         else case r' of
                [] \<Rightarrow> Some (m, - int (length f))
              | e # es \<Rightarrow>
                  if e = CHR ''e'' \<or> e = CHR ''E'' then
                    (let (neg, ds) = take_sign es in
                     if ds = [] \<or> \<not> list_all is_ascii_digit ds then None
                     else Some (m, (if neg then - int (digits_nat ds) else int (digits_nat ds)) - int (length f)))
                  else None)"

text \<open>
  \<open>parse::<f32>().ok()\<close> followed by \<open>> 0.0\<close>. A positive decimal rounds to zero exactly when it is
  at most \<open>2\<close> to the \<open>-150\<close>, half of the smallest positive value; the tie goes to the even zero.
\<close>

definition f32_positive :: "string \<Rightarrow> bool option" where
  "f32_positive s =
     (let (neg, body) = take_sign s; low = to_ascii_lowercase body in
      if low = ''inf'' \<or> low = ''infinity'' then Some (\<not> neg)
      else if low = ''nan'' then Some False
      else case decimal_parts body of
             None \<Rightarrow> None
           | Some (m, e) \<Rightarrow>
               Some (\<not> neg \<and> m > 0 \<and> (e \<ge> 0 \<or> m * 2 ^ 150 > 10 ^ nat (- e))))"

section \<open>Accept-Encoding\<close>

fun first_quality :: "string list \<Rightarrow> bool option" where
  "first_quality [] = None"
| "first_quality (p # ps) =
     (case strip_prefix ''q='' (trim p) of
        None \<Rightarrow> first_quality ps
      | Some raw \<Rightarrow> (case f32_positive raw of None \<Rightarrow> first_quality ps | Some b \<Rightarrow> Some b))"

definition accepts_entry :: "string \<Rightarrow> bool" where
  "accepts_entry entry =
     (let parts = split_char (CHR '';'') (trim entry);
          coding = trim (hd parts);
          positive = (case first_quality (tl parts) of None \<Rightarrow> True | Some b \<Rightarrow> b)
      in (eq_ignore_ascii_case coding ''gzip'' \<or> coding = ''*'') \<and> positive)"

definition accepts_gzip :: "string option \<Rightarrow> bool" where
  "accepts_gzip v =
     (case v of None \<Rightarrow> False | Some s \<Rightarrow> list_ex accepts_entry (split_char (CHR '','') s))"

section \<open>Compressed responses\<close>

definition dynamic_response_compressible :: "http_response \<Rightarrow> bool" where
  "dynamic_response_compressible r =
     (if rs_status r = NoContent \<or> rs_status r = NotModified then False
      else if list_ex (\<lambda>h. eq_ignore_ascii_case (fst h) ''Content-Encoding''
                 \<or> (eq_ignore_ascii_case (fst h) ''Cache-Control''
                    \<and> str_contains (to_ascii_lowercase (snd h)) ''no-transform'')) (rs_headers r)
      then False
      else case find_header (rs_headers r) ''Content-Type'' of
             None \<Rightarrow> False
           | Some v \<Rightarrow>
               (let mime = to_ascii_lowercase (trim (hd (split_char (CHR '';'') v))) in
                starts_with mime ''text/''
                \<or> mime \<in> {''application/json'', ''application/javascript'', ''application/xml'', ''image/svg+xml''}))"

definition remove_header :: "headers \<Rightarrow> string \<Rightarrow> headers" where
  "remove_header hs name = filter (\<lambda>h. \<not> eq_ignore_ascii_case (fst h) name) hs"

definition ensure_vary :: "headers \<Rightarrow> headers" where
  "ensure_vary hs =
     (if list_ex (\<lambda>h. eq_ignore_ascii_case (fst h) ''Vary''
           \<and> list_ex (\<lambda>p. eq_ignore_ascii_case (trim p) ''Accept-Encoding'') (split_char (CHR '','') (snd h))) hs
      then hs else hs @ [(''Vary'', ''Accept-Encoding'')])"

lemma ensure_vary_idem: "ensure_vary (ensure_vary hs) = ensure_vary hs"
proof -
  have "list_ex (\<lambda>p. eq_ignore_ascii_case (trim p) ''Accept-Encoding'') (split_char (CHR '','') ''Accept-Encoding'')"
    by code_simp
  then show ?thesis by (simp add: ensure_vary_def eq_ignore_ascii_case_def)
qed

end
