(* ===== verification/Action.thy ===== *)
theory Action
  imports Main
begin

text \<open>
  Operations of the form \<open>fn op(&mut self, ...) -> Result<T, E>\<close>: a function from the state to
  the new state and a result. An error keeps the changes made before it, as \<open>?\<close> does. The
  weakest precondition of an action is computed by rewriting, so that a statement about a whole
  operation reduces to its branches.
\<close>

type_synonym ('s, 'e, 'a) action = "'s \<Rightarrow> 's \<times> ('e + 'a)"

named_theorems wp_simps \<open>weakest preconditions of actions\<close>

definition ret :: "'a \<Rightarrow> ('s, 'e, 'a) action" where
  "ret a = (\<lambda>s. (s, Inr a))"

definition fail :: "'e \<Rightarrow> ('s, 'e, 'a) action" where
  "fail e = (\<lambda>s. (s, Inl e))"

definition and_then :: "('s, 'e, 'a) action \<Rightarrow> ('a \<Rightarrow> ('s, 'e, 'b) action) \<Rightarrow> ('s, 'e, 'b) action" where
  "and_then m f = (\<lambda>s. case m s of (s', Inl e) \<Rightarrow> (s', Inl e) | (s', Inr a) \<Rightarrow> f a s')"

definition then_do :: "('s, 'e, 'a) action \<Rightarrow> ('s, 'e, 'b) action \<Rightarrow> ('s, 'e, 'b) action" where
  "then_do m n = and_then m (\<lambda>_. n)"

definition update_state :: "('s \<Rightarrow> 's) \<Rightarrow> ('s, 'e, unit) action" where
  "update_state f = (\<lambda>s. (f s, Inr ()))"

definition with_state :: "('s \<Rightarrow> ('s, 'e, 'a) action) \<Rightarrow> ('s, 'e, 'a) action" where
  "with_state f = (\<lambda>s. f s s)"

text \<open>A pure fallible operation on a part of the state, and its result stored back.\<close>

definition of_result :: "'e + 'a \<Rightarrow> ('s, 'e, 'a) action" where
  "of_result r = (\<lambda>s. (s, r))"

definition when_do :: "bool \<Rightarrow> ('s, 'e, unit) action \<Rightarrow> ('s, 'e, unit) action" where
  "when_do b m = (if b then m else ret ())"

primrec for_each :: "('a \<Rightarrow> ('s, 'e, unit) action) \<Rightarrow> 'a list \<Rightarrow> ('s, 'e, unit) action" where
  "for_each f [] = ret ()"
| "for_each f (x # xs) = then_do (f x) (for_each f xs)"

section \<open>Weakest preconditions\<close>

definition wp :: "('s, 'e, 'a) action \<Rightarrow> ('a \<Rightarrow> 's \<Rightarrow> bool) \<Rightarrow> ('e \<Rightarrow> 's \<Rightarrow> bool) \<Rightarrow> 's \<Rightarrow> bool" where
  "wp m Q E s \<longleftrightarrow> (case m s of (s', Inr a) \<Rightarrow> Q a s' | (s', Inl e) \<Rightarrow> E e s')"

lemma wp_ret [wp_simps]: "wp (ret a) Q E = Q a"
  by (simp add: wp_def ret_def fun_eq_iff)

lemma wp_fail [wp_simps]: "wp (fail e) Q E = E e"
  by (simp add: wp_def fail_def fun_eq_iff)

lemma wp_and_then [wp_simps]: "wp (and_then m f) Q E = wp m (\<lambda>a. wp (f a) Q E) E"
  by (simp add: wp_def and_then_def fun_eq_iff split: prod.splits sum.splits)

lemma wp_then_do [wp_simps]: "wp (then_do m n) Q E = wp m (\<lambda>_. wp n Q E) E"
  by (simp add: then_do_def wp_and_then)

lemma wp_update_state [wp_simps]: "wp (update_state f) Q E = (\<lambda>s. Q () (f s))"
  by (simp add: wp_def update_state_def fun_eq_iff)

lemma wp_with_state [wp_simps]: "wp (with_state f) Q E = (\<lambda>s. wp (f s) Q E s)"
  by (simp add: wp_def with_state_def fun_eq_iff)

lemma wp_of_result [wp_simps]:
  "wp (of_result r) Q E = (\<lambda>s. case r of Inl e \<Rightarrow> E e s | Inr a \<Rightarrow> Q a s)"
  by (simp add: wp_def of_result_def fun_eq_iff split: sum.splits)

lemma wp_when_do [wp_simps]: "wp (when_do b m) Q E = (\<lambda>s. if b then wp m Q E s else Q () s)"
  by (simp add: when_do_def wp_ret fun_eq_iff)

lemma wp_if [wp_simps]: "wp (if b then m else n) Q E = (\<lambda>s. if b then wp m Q E s else wp n Q E s)"
  by (simp add: fun_eq_iff)

lemma wp_weaken:
  assumes "wp m Q E s" "\<And>a s'. Q a s' \<Longrightarrow> Q' a s'" "\<And>e s'. E e s' \<Longrightarrow> E' e s'"
  shows "wp m Q' E' s"
  using assms by (auto simp: wp_def split: prod.splits sum.splits)

lemma wp_conj:
  assumes "wp m Q E s" "wp m Q' E' s"
  shows "wp m (\<lambda>a s. Q a s \<and> Q' a s) (\<lambda>e s. E e s \<and> E' e s) s"
  using assms by (auto simp: wp_def split: prod.splits sum.splits)

lemma wp_result:
  assumes "wp m Q E s" "m s = (s', r)"
  shows "case r of Inl e \<Rightarrow> E e s' | Inr a \<Rightarrow> Q a s'"
  using assms by (auto simp: wp_def split: sum.splits)

section \<open>Invariants\<close>

text \<open>The action keeps the invariant, whether it succeeds or fails.\<close>

definition keeps :: "('s \<Rightarrow> bool) \<Rightarrow> ('s, 'e, 'a) action \<Rightarrow> bool" where
  "keeps I m \<longleftrightarrow> (\<forall>s. I s \<longrightarrow> I (fst (m s)))"

lemma keeps_wp: "keeps I m \<longleftrightarrow> (\<forall>s. I s \<longrightarrow> wp m (\<lambda>_. I) (\<lambda>_. I) s)"
proof -
  have "wp m (\<lambda>_. I) (\<lambda>_. I) s = I (fst (m s))" for s
    by (simp add: wp_def split: prod.splits sum.splits)
  then show ?thesis by (simp add: keeps_def)
qed

lemma keepsD: "keeps I m \<Longrightarrow> I s \<Longrightarrow> wp m (\<lambda>_. I) (\<lambda>_. I) s"
  by (simp add: keeps_wp)

lemma keeps_run: "keeps I m \<Longrightarrow> I s \<Longrightarrow> m s = (s', r) \<Longrightarrow> I s'"
  by (fastforce simp: keeps_def)

lemma keeps_ret [intro, simp]: "keeps I (ret a)"
  by (simp add: keeps_def ret_def)

lemma keeps_fail [intro, simp]: "keeps I (fail e)"
  by (simp add: keeps_def fail_def)

lemma keeps_of_result [intro, simp]: "keeps I (of_result r)"
  by (simp add: keeps_def of_result_def)

lemma keeps_and_then:
  assumes "keeps I m" "\<And>a. keeps I (f a)"
  shows "keeps I (and_then m f)"
  using assms by (fastforce simp: keeps_def and_then_def split: prod.splits sum.splits)

lemma keeps_then_do: "keeps I m \<Longrightarrow> keeps I n \<Longrightarrow> keeps I (then_do m n)"
  by (simp add: then_do_def keeps_and_then)

lemma keeps_update_state: "(\<And>s. I s \<Longrightarrow> I (f s)) \<Longrightarrow> keeps I (update_state f)"
  by (simp add: keeps_def update_state_def)

lemma keeps_with_state: "(\<And>s. I s \<Longrightarrow> I (fst (f s s))) \<Longrightarrow> keeps I (with_state f)"
  by (simp add: keeps_def with_state_def)

lemma keeps_with: "(\<And>s. keeps I (f s)) \<Longrightarrow> keeps I (with_state f)"
  by (simp add: keeps_def with_state_def)

lemma keeps_when_do: "keeps I m \<Longrightarrow> keeps I (when_do b m)"
  by (simp add: when_do_def)

lemma keeps_if: "(b \<Longrightarrow> keeps I m) \<Longrightarrow> (\<not> b \<Longrightarrow> keeps I n) \<Longrightarrow> keeps I (if b then m else n)"
  by simp

lemma keeps_for_each: "(\<And>x. x \<in> set xs \<Longrightarrow> keeps I (f x)) \<Longrightarrow> keeps I (for_each f xs)"
  by (induction xs) (auto intro: keeps_then_do)

lemmas keeps_intros = keeps_and_then keeps_then_do keeps_update_state keeps_with keeps_when_do keeps_if keeps_for_each

lemma keeps_cong_wp: "keeps I m \<Longrightarrow> I s \<Longrightarrow> (\<And>a s'. I s' \<Longrightarrow> Q a s') \<Longrightarrow> (\<And>e s'. I s' \<Longrightarrow> E e s') \<Longrightarrow> wp m Q E s"
  by (rule wp_weaken [OF keepsD [of I]])

text \<open>The action re-establishes the invariant whenever it succeeds.\<close>

definition oks :: "('s \<Rightarrow> bool) \<Rightarrow> ('s, 'e, 'a) action \<Rightarrow> bool" where
  "oks I m \<longleftrightarrow> (\<forall>s. I s \<longrightarrow> wp m (\<lambda>_. I) (\<lambda>_ _. True) s)"

lemma oksD: "oks I m \<Longrightarrow> I s \<Longrightarrow> wp m (\<lambda>_. I) (\<lambda>_ _. True) s"
  by (simp add: oks_def)

lemma oks_run: "oks I m \<Longrightarrow> I s \<Longrightarrow> m s = (s', Inr a) \<Longrightarrow> I s'"
  by (fastforce simp: oks_def wp_def)

lemma keeps_oks: "keeps I m \<Longrightarrow> oks I m"
  unfolding oks_def keeps_wp by (blast intro: wp_weaken)

lemma oks_ret [intro, simp]: "oks I (ret a)"
  by (simp add: oks_def wp_ret)

lemma oks_fail [intro, simp]: "oks I (fail e)"
  by (simp add: oks_def wp_fail)

lemma oks_of_result [intro, simp]: "oks I (of_result r)"
  by (simp add: oks_def wp_of_result split: sum.splits)

lemma oks_and_then:
  assumes "oks I m" "\<And>a. oks I (f a)"
  shows "oks I (and_then m f)"
  unfolding oks_def wp_and_then
  using assms by (blast intro: wp_weaken [OF oksD] oksD)

lemma oks_then_do: "oks I m \<Longrightarrow> oks I n \<Longrightarrow> oks I (then_do m n)"
  by (simp add: then_do_def oks_and_then)

lemma oks_update_state: "(\<And>s. I s \<Longrightarrow> I (f s)) \<Longrightarrow> oks I (update_state f)"
  by (simp add: oks_def wp_update_state)

lemma oks_with: "(\<And>s. oks I (f s)) \<Longrightarrow> oks I (with_state f)"
  by (simp add: oks_def wp_with_state)

lemma oks_with_state: "(\<And>s. I s \<Longrightarrow> wp (f s) (\<lambda>_. I) (\<lambda>_ _. True) s) \<Longrightarrow> oks I (with_state f)"
  by (simp add: oks_def wp_with_state)

lemma oks_when_do: "oks I m \<Longrightarrow> oks I (when_do b m)"
  by (simp add: when_do_def)

lemma oks_if: "(b \<Longrightarrow> oks I m) \<Longrightarrow> (\<not> b \<Longrightarrow> oks I n) \<Longrightarrow> oks I (if b then m else n)"
  by simp

lemma oks_for_each: "(\<And>x. x \<in> set xs \<Longrightarrow> oks I (f x)) \<Longrightarrow> oks I (for_each f xs)"
  by (induction xs) (auto intro: oks_then_do)

lemmas oks_intros = oks_and_then oks_then_do oks_update_state oks_when_do oks_if oks_for_each

end
