(* ===== verification/H2_Connection.thy ===== *)
theory H2_Connection
  imports H2_Stream Hpack Negotiation Action
begin

text \<open>
  The HTTP/2 connection driver (\<open>src/src/server/http2/connection.rs\<close>): the connection state, the
  handler of every frame type, the dispatch of a complete request, the fragmentation of response
  headers, the fair scheduler of response bodies, and the main loop with its reads.

  The transport is part of the state: \<open>cn_in\<close> is what reading delivers, \<open>cn_out\<close> what was written.
  The request handler, the proxy and the FastCGI client are the record \<open>backend\<close> of the functions
  that the driver calls, on a world \<open>'w\<close> that they may change.
\<close>

section \<open>Response bodies\<close>

datatype body_read = ReadData bytes bool | ReadPending | ReadDone

datatype pending_body =
    BytesPending bytes nat
  | FilePending source nat
  | ReaderPending source "nat option"

definition read_bytes_body :: "bytes \<Rightarrow> nat \<Rightarrow> nat \<Rightarrow> pending_body \<times> (http2_error_code + body_read)" where
  "read_bytes_body d offset mx =
     (let e = min (offset + mx) (length d) in
      (BytesPending d e, Inr (ReadData (drop offset (take e d)) (e = length d))))"

definition read_file_body :: "source \<Rightarrow> nat \<Rightarrow> nat \<Rightarrow> pending_body \<times> (http2_error_code + body_read)" where
  "read_file_body f remaining mx =
     (case io_read f (min remaining mx) of
        (Inl _, f') \<Rightarrow> (FilePending f' remaining, Inl InternalError)
      | (Inr bs, f') \<Rightarrow>
          if bs = [] then (FilePending f' remaining, Inl InternalError)
          else (FilePending f' (remaining - length bs), Inr (ReadData bs (remaining - length bs = 0))))"

definition read_reader_body :: "source \<Rightarrow> nat option \<Rightarrow> nat \<Rightarrow> pending_body \<times> (http2_error_code + body_read)" where
  "read_reader_body r remaining mx =
     (let want = (case remaining of None \<Rightarrow> mx | Some left \<Rightarrow> min left mx) in
      if want = 0 then (ReaderPending r remaining, Inr ReadDone)
      else case io_read r want of
             (Inl k, r') \<Rightarrow>
               (ReaderPending r' remaining,
                if k = WouldBlock \<or> k = TimedOut then Inr ReadPending else Inl InternalError)
           | (Inr bs, r') \<Rightarrow>
               if bs = [] then
                 (ReaderPending r' remaining,
                  case remaining of
                    Some left \<Rightarrow> if left \<noteq> 0 then Inl InternalError else Inr ReadDone
                  | None \<Rightarrow> Inr ReadDone)
               else
                 (case remaining of
                    None \<Rightarrow> (ReaderPending r' None, Inr (ReadData bs False))
                  | Some left \<Rightarrow>
                      if length bs > left then (ReaderPending r' remaining, Inl InternalError)
                      else (ReaderPending r' (Some (left - length bs)),
                            Inr (ReadData bs (left - length bs = 0)))))"

fun read_chunk :: "pending_body \<Rightarrow> nat \<Rightarrow> pending_body \<times> (http2_error_code + body_read)" where
  "read_chunk (BytesPending d offset) mx = read_bytes_body d offset mx"
| "read_chunk (FilePending f remaining) mx = read_file_body f remaining mx"
| "read_chunk (ReaderPending r remaining) mx = read_reader_body r remaining mx"

section \<open>The connection\<close>

record pending_response =
  pn_stream_id :: u32
  pn_body :: pending_body

datatype ('p, 'f) pending_header_source = ProxySource 'p | FastCgiSource 'f

record ('p, 'f) pending_header_response =
  ph_stream_id :: u32
  ph_source :: "('p, 'f) pending_header_source"
  ph_compress :: bool
  ph_compression_level :: nat

type_synonym h2_response = "http_response \<times> source option \<times> nat option"

record ('w, 'p, 'f) backend =
  be_effective_config :: "http_request \<Rightarrow> server_config"
  be_handle_request :: "'w \<Rightarrow> http_request \<Rightarrow> socket_addr option \<Rightarrow> 'w \<times> http_response"
  be_proxy_matches :: "http_request \<Rightarrow> server_config \<Rightarrow> bool"
  be_proxy_begin :: "'w \<Rightarrow> http_request \<Rightarrow> server_config \<Rightarrow> socket_addr \<Rightarrow> bool \<Rightarrow> 'w \<times> (unit + 'p option)"
  be_proxy_poll :: "'w \<Rightarrow> 'p \<Rightarrow> 'w \<times> 'p \<times> (unit + h2_response option)"
  be_fastcgi_matches :: "http_request \<Rightarrow> server_config \<Rightarrow> bool"
  be_fastcgi_begin :: "'w \<Rightarrow> http_request \<Rightarrow> server_config \<Rightarrow> bool \<Rightarrow> socket_addr \<Rightarrow> 'w \<times> (unit + 'f option)"
  be_fastcgi_poll :: "'w \<Rightarrow> 'f \<Rightarrow> 'w \<times> 'f \<times> (unit + h2_response option)"
  be_gzip :: "nat \<Rightarrow> source \<Rightarrow> source"

record ('w, 'p, 'f) h2_conn =
  cn_config :: server_config
  cn_secure :: bool
  cn_hpack_decoder :: hpack_decoder
  cn_flow_control :: flow_control
  cn_max_frame_size :: u32
  cn_peer_max_frame_size :: u32
  cn_peer_connection_window :: window
  cn_peer_initial_stream_window_size :: u32
  cn_send_stream_windows :: "(u32 \<times> window) list"
  cn_max_concurrent_streams :: nat
  cn_active_streams :: "(u32 \<times> stream) list"
  cn_last_stream_id :: u32
  cn_pending_headers_stream_id :: "u32 option"
  cn_pending_header_block :: bytes
  cn_read_buffer :: bytes
  cn_deferred_frames :: "frame list"
  cn_pending_responses :: "pending_response list"
  cn_pending_header_responses :: "('p, 'f) pending_header_response list"
  cn_closed_streams :: "u32 list"
  cn_world :: 'w
  cn_in :: source
  cn_out :: sink

type_synonym ('w, 'p, 'f, 'a) h2_action = "(('w, 'p, 'f) h2_conn, http2_error_code, 'a) action"

definition conn_new :: "server_config \<Rightarrow> bool \<Rightarrow> 'w \<Rightarrow> source \<Rightarrow> sink \<Rightarrow> ('w, 'p, 'f) h2_conn" where
  "conn_new cfg secure w inp out =
     \<lparr>cn_config = cfg, cn_secure = secure,
      cn_hpack_decoder = decoder_new 4096 (sc_http2_max_header_block_size cfg),
      cn_flow_control = flow_control_new (sc_http2_initial_window_size cfg),
      cn_max_frame_size = sc_http2_max_frame_size cfg,
      cn_peer_max_frame_size = DEFAULT_MAX_FRAME_SIZE,
      cn_peer_connection_window = window_new 65535,
      cn_peer_initial_stream_window_size = 65535, cn_send_stream_windows = [],
      cn_max_concurrent_streams = sc_http2_max_concurrent_streams cfg,
      cn_active_streams = [], cn_last_stream_id = 0, cn_pending_headers_stream_id = None,
      cn_pending_header_block = [], cn_read_buffer = [], cn_deferred_frames = [],
      cn_pending_responses = [], cn_pending_header_responses = [], cn_closed_streams = [],
      cn_world = w, cn_in = inp, cn_out = out\<rparr>"

section \<open>Writing frames\<close>

definition mk_frame :: "nat \<Rightarrow> frame_type \<Rightarrow> u8 \<Rightarrow> u32 \<Rightarrow> frame_payload \<Rightarrow> frame" where
  "mk_frame len ty fl sid p =
     \<lparr>fr_header = \<lparr>fh_length = of_nat len, fh_type = ty, fh_flags = fl, fh_stream_id = sid\<rparr>, fr_payload = p\<rparr>"

definition rst_frame :: "u32 \<Rightarrow> http2_error_code \<Rightarrow> frame" where
  "rst_frame sid err = mk_frame 4 RstStreamT 0 sid (RstStream err)"

definition window_update_frame :: "u32 \<Rightarrow> u32 \<Rightarrow> frame" where
  "window_update_frame sid n = mk_frame 4 WindowUpdateT 0 sid (WindowUpdate n)"

definition data_frame :: "u32 \<Rightarrow> bytes \<Rightarrow> bool \<Rightarrow> frame" where
  "data_frame sid d done = mk_frame (length d) DataT (if done then END_STREAM else 0) sid (Data d done)"

definition write_out :: "bytes \<Rightarrow> ('w, 'p, 'f) h2_conn \<Rightarrow> ('w, 'p, 'f) h2_conn \<times> bool" where
  "write_out bs s = (case write_all (cn_out s) bs of (ok, out) \<Rightarrow> (s\<lparr>cn_out := out\<rparr>, ok))"

text \<open>\<open>write_all(..).map_err(|_| InternalError)?\<close>, and the form whose result is dropped.\<close>

definition emit :: "frame \<Rightarrow> ('w, 'p, 'f, unit) h2_action" where
  "emit f = (\<lambda>s. case write_out (frame_encode f) s of (s', ok) \<Rightarrow> (s', if ok then Inr () else Inl InternalError))"

definition emit_ignoring :: "frame \<Rightarrow> ('w, 'p, 'f, unit) h2_action" where
  "emit_ignoring f = update_state (\<lambda>s. fst (write_out [] (fst (write_out (frame_encode f) s))))"

definition flush_out :: "('w, 'p, 'f, unit) h2_action" where
  "flush_out = (\<lambda>s. case write_out [] s of (s', ok) \<Rightarrow> (s', if ok then Inr () else Inl InternalError))"

text \<open>The result of \<open>send_goaway\<close> is the I/O result; \<open>flush\<close> follows only a successful write.\<close>

definition send_goaway :: "u32 \<Rightarrow> http2_error_code \<Rightarrow> ('w, 'p, 'f) h2_conn \<Rightarrow> ('w, 'p, 'f) h2_conn \<times> bool" where
  "send_goaway last_stream_id err s =
     (case write_out (frame_encode (mk_frame 8 GoAwayT 0 0 (GoAway last_stream_id err []))) s of
        (s', ok) \<Rightarrow> if ok then write_out [] s' else (s', False))"

definition send_server_settings :: "('w, 'p, 'f) h2_conn \<Rightarrow> ('w, 'p, 'f) h2_conn \<times> bool" where
  "send_server_settings s =
     (case write_out (frame_encode (mk_frame 18 SettingsT 0 0
              (Settings [(MaxConcurrentStreams, of_nat (cn_max_concurrent_streams s)),
                         (InitialWindowSize, fc_initial_stream_window_size (cn_flow_control s)),
                         (MaxFrameSize, cn_max_frame_size s)] False))) s of
        (s', ok) \<Rightarrow> if ok then write_out [] s' else (s', False))"

section \<open>Stream accounting\<close>

definition tracked_stream_count :: "('w, 'p, 'f) h2_conn \<Rightarrow> nat" where
  "tracked_stream_count s = length (cn_send_stream_windows s)"

definition can_accept_new_stream :: "('w, 'p, 'f) h2_conn \<Rightarrow> bool" where
  "can_accept_new_stream s \<longleftrightarrow> tracked_stream_count s < cn_max_concurrent_streams s"

definition closed_limit :: "('w, 'p, 'f) h2_conn \<Rightarrow> nat" where
  "closed_limit s = max (min (cn_max_concurrent_streams s * 2) usize_max) 16"

text \<open>The loop that pops from the front until the list fits drops the excess.\<close>

definition mark_closed_stream :: "u32 \<Rightarrow> ('w, 'p, 'f) h2_conn \<Rightarrow> ('w, 'p, 'f) h2_conn" where
  "mark_closed_stream sid s =
     (if sid \<in> set (cn_closed_streams s) then s
      else let cs = cn_closed_streams s @ [sid] in
        s\<lparr>cn_closed_streams := drop (length cs - closed_limit s) cs\<rparr>)"

definition remove_window :: "u32 \<Rightarrow> ('w, 'p, 'f) h2_conn \<Rightarrow> ('w, 'p, 'f) h2_conn" where
  "remove_window sid s = s\<lparr>cn_send_stream_windows := AList.delete sid (cn_send_stream_windows s)\<rparr>"

definition remove_active :: "u32 \<Rightarrow> ('w, 'p, 'f) h2_conn \<Rightarrow> ('w, 'p, 'f) h2_conn" where
  "remove_active sid s = s\<lparr>cn_active_streams := AList.delete sid (cn_active_streams s)\<rparr>"

definition put_active :: "u32 \<Rightarrow> stream \<Rightarrow> ('w, 'p, 'f) h2_conn \<Rightarrow> ('w, 'p, 'f) h2_conn" where
  "put_active sid st s = s\<lparr>cn_active_streams := AList.update sid st (cn_active_streams s)\<rparr>"

definition put_window :: "u32 \<Rightarrow> window \<Rightarrow> ('w, 'p, 'f) h2_conn \<Rightarrow> ('w, 'p, 'f) h2_conn" where
  "put_window sid w s = s\<lparr>cn_send_stream_windows := AList.update sid w (cn_send_stream_windows s)\<rparr>"

text \<open>A stream whose response is complete or reset.\<close>

definition finish_stream :: "u32 \<Rightarrow> ('w, 'p, 'f) h2_conn \<Rightarrow> ('w, 'p, 'f) h2_conn" where
  "finish_stream sid s = mark_closed_stream sid (remove_window sid s)"

section \<open>Checking requests\<close>

definition bad_header_name :: "string \<Rightarrow> bool" where
  "bad_header_name name \<longleftrightarrow>
     name = [] \<or> list_ex (\<lambda>c. is_ascii_uppercase c \<or> code c \<le> 0x20 \<or> code c = 0x7f) name"

definition connection_specific :: "string \<Rightarrow> string \<Rightarrow> bool" where
  "connection_specific name val \<longleftrightarrow>
     name \<in> {''connection'', ''keep-alive'', ''proxy-connection'', ''upgrade'', ''transfer-encoding''}
     \<or> (name = ''te'' \<and> \<not> eq_ignore_ascii_case val ''trailers'')"

definition pseudo_names :: "string list" where
  "pseudo_names = ['':method'', '':scheme'', '':path'', '':authority'']"

text \<open>The loop over the headers; the association list holds the pseudo-headers seen so far.\<close>

fun validate_from :: "bool \<Rightarrow> headers \<Rightarrow> headers \<Rightarrow> http2_error_code + headers" where
  "validate_from seen_regular slots [] = Inr slots"
| "validate_from seen_regular slots ((name, val) # hs) =
     (if bad_header_name name then Inl ProtocolError
      else if starts_with name '':'' then
        (if seen_regular then Inl ProtocolError
         else if name \<notin> set pseudo_names then Inl ProtocolError
         else if has_key slots name then Inl ProtocolError
         else validate_from False (slots @ [(name, val)]) hs)
      else if connection_specific name val then Inl ProtocolError
      else validate_from True slots hs)"

definition validate_request_headers :: "headers \<Rightarrow> http2_error_code + unit" where
  "validate_request_headers hs =
     (case validate_from False [] hs of
        Inl e \<Rightarrow> Inl e
      | Inr slots \<Rightarrow>
          (case map_of slots '':method'' of
             None \<Rightarrow> Inl ProtocolError
           | Some m \<Rightarrow>
               if m \<noteq> ''CONNECT'' \<and> (map_of slots '':scheme'' = None \<or> map_of slots '':path'' = None)
               then Inl ProtocolError else Inr ()))"

fun content_lengths :: "headers \<Rightarrow> nat option \<Rightarrow> http2_error_code + nat option" where
  "content_lengths [] cl = Inr cl"
| "content_lengths ((name, val) # hs) cl =
     (if name = ''content-length'' then
        (case parse_usize val of
           None \<Rightarrow> Inl ProtocolError
         | Some n \<Rightarrow> if cl \<noteq> None then Inl ProtocolError else content_lengths hs (Some n))
      else content_lengths hs cl)"

definition validate_content_length :: "headers \<Rightarrow> nat \<Rightarrow> http2_error_code + unit" where
  "validate_content_length hs actual =
     (case content_lengths hs None of
        Inl e \<Rightarrow> Inl e
      | Inr cl \<Rightarrow> (case cl of Some n \<Rightarrow> if n \<noteq> actual then Inl ProtocolError else Inr () | None \<Rightarrow> Inr ()))"

text \<open>The loop that turns the header list into a request: method, target, authority, other headers.\<close>

fun split_request :: "headers \<Rightarrow> http_method \<times> string \<times> string option \<times> headers \<Rightarrow>
    http_method \<times> string \<times> string option \<times> headers" where
  "split_request [] acc = acc"
| "split_request ((name, val) # hs) (m, uri, auth, rest) =
     split_request hs
       (if name = '':method'' then (method_from val, uri, auth, rest)
        else if name = '':path'' then (m, val, auth, rest)
        else if name = '':authority'' then (m, uri, Some val, rest)
        else if \<not> starts_with name '':'' then (m, uri, auth, rest @ [(name, val)])
        else (m, uri, auth, rest))"

definition h2_request :: "stream \<Rightarrow> http_request" where
  "h2_request st =
     (case split_request (st_request_headers st) (Get, ''/'', None, []) of
        (m, uri, auth, hs) \<Rightarrow>
          \<lparr>rq_method = m, rq_uri = uri, rq_version = ''HTTP/2.0'',
           rq_headers = (case auth of None \<Rightarrow> hs | Some a \<Rightarrow> hs @ [(''Host'', a)]),
           rq_body = st_request_body st\<rparr>)"

section \<open>Queueing a response\<close>

definition has_body :: "http_response \<Rightarrow> bool" where
  "has_body r = (case rs_body r of
     BytesBody b \<Rightarrow> b \<noteq> [] | FileBody _ n \<Rightarrow> n > 0 | FileRange _ _ n \<Rightarrow> n > 0 | GzipFile _ n _ \<Rightarrow> n > 0)"

definition response_body :: "(nat \<Rightarrow> source \<Rightarrow> source) \<Rightarrow> http_response \<Rightarrow> http2_error_code + pending_body" where
  "response_body gz r =
     (case rs_body r of
        BytesBody b \<Rightarrow> Inr (BytesPending b 0)
      | FileBody f n \<Rightarrow> (case f 0 of Inl _ \<Rightarrow> Inl InternalError | Inr src \<Rightarrow> Inr (FilePending src n))
      | FileRange f start n \<Rightarrow> (case f start of Inl _ \<Rightarrow> Inl InternalError | Inr src \<Rightarrow> Inr (FilePending src n))
      | GzipFile f _ level \<Rightarrow>
          (case f 0 of Inl _ \<Rightarrow> Inl InternalError | Inr src \<Rightarrow> Inr (ReaderPending (gz level src) None)))"

definition h2_header_list :: "http_response \<Rightarrow> headers" where
  "h2_header_list r = ('':status'', show_nat (status_u16 (rs_status r))) # rs_headers r"

text \<open>
  The fragments after the first. A limit of zero would make the source loop for ever; the
  connection invariant excludes it.
\<close>

function continuation_frames :: "u32 \<Rightarrow> nat \<Rightarrow> bytes \<Rightarrow> frame list" where
  "continuation_frames sid mx bs =
     (if bs = [] \<or> mx = 0 then []
      else let c = take mx bs; r = drop mx bs in
        mk_frame (length c) ContinuationT (if r = [] then END_HEADERS else 0) sid (Continuation c (r = []))
        # continuation_frames sid mx r)"
  by pat_completeness auto
termination
  by (relation "measure (\<lambda>(sid, mx, bs). length bs)") auto

declare continuation_frames.simps [simp del]

definition header_frames :: "u32 \<Rightarrow> nat \<Rightarrow> bytes \<Rightarrow> bool \<Rightarrow> frame list" where
  "header_frames sid mx block end_stream =
     (let first = take mx block; whole = (length first = length block);
          fl = (if whole then END_HEADERS else 0) OR (if end_stream then END_STREAM else 0)
      in mk_frame (length first) HeadersT fl sid (Headers first end_stream whole)
         # continuation_frames sid mx (drop mx block))"

definition queue_h2_stream_response :: "('w, 'p, 'f) backend \<Rightarrow> u32 \<Rightarrow> http_response \<Rightarrow> pending_body option \<Rightarrow>
    ('w, 'p, 'f, unit) h2_action" where
  "queue_h2_stream_response be sid resp dynamic_body =
     (let body = dynamic_body \<noteq> None \<or> has_body resp in
      then_do
        (with_state (\<lambda>s. for_each emit
           (header_frames sid (unat (cn_peer_max_frame_size s)) (encode_headers (h2_header_list resp)) (\<not> body))))
        (then_do
          (if \<not> body then update_state (finish_stream sid)
           else and_then (of_result (case dynamic_body of Some b \<Rightarrow> Inr b | None \<Rightarrow> response_body (be_gzip be) resp))
             (\<lambda>b. update_state (\<lambda>s. s\<lparr>cn_pending_responses :=
                cn_pending_responses s @ [\<lparr>pn_stream_id = sid, pn_body = b\<rparr>]\<rparr>)))
          flush_out))"

definition queue_h2_response :: "('w, 'p, 'f) backend \<Rightarrow> u32 \<Rightarrow> http_response \<Rightarrow> ('w, 'p, 'f, unit) h2_action" where
  "queue_h2_response be sid resp = queue_h2_stream_response be sid resp None"

section \<open>Dispatching a request\<close>

definition bad_gateway :: "string \<Rightarrow> http_response" where
  "bad_gateway msg = with_body (response_new BadGateway) (str_bytes msg) ''text/plain; charset=utf-8''"

definition await_headers :: "u32 \<Rightarrow> ('p, 'f) pending_header_source \<Rightarrow> http_request \<Rightarrow> server_config \<Rightarrow>
    ('w, 'p, 'f) h2_conn \<Rightarrow> ('w, 'p, 'f) h2_conn" where
  "await_headers sid src req cfg s =
     s\<lparr>cn_pending_header_responses := cn_pending_header_responses s @
        [\<lparr>ph_stream_id = sid, ph_source = src, ph_compress = accepts_gzip (get_header req ''Accept-Encoding''),
          ph_compression_level = sc_compression_level cfg\<rparr>]\<rparr>"

text \<open>
  An upstream that a route names: the pending source, nothing (the route does not apply after
  all, and dispatch goes on), or a failure answered with 502. The result says whether the request
  is settled.
\<close>

definition try_proxy :: "('w, 'p, 'f) backend \<Rightarrow> u32 \<Rightarrow> http_request \<Rightarrow> server_config \<Rightarrow> socket_addr \<Rightarrow>
    ('w, 'p, 'f, bool) h2_action" where
  "try_proxy be sid req cfg peer =
     (if \<not> be_proxy_matches be req cfg then ret False
      else with_state (\<lambda>s.
        case be_proxy_begin be (cn_world s) req cfg peer (cn_secure s) of
          (w, r) \<Rightarrow>
            then_do (update_state (\<lambda>s. s\<lparr>cn_world := w\<rparr>))
              (case r of
                 Inr (Some src) \<Rightarrow> then_do (update_state (await_headers sid (ProxySource src) req cfg)) (ret True)
               | Inr None \<Rightarrow> ret False
               | Inl _ \<Rightarrow> then_do (queue_h2_response be sid (bad_gateway ''502 Bad Gateway: proxy upstream failure''))
                            (ret True))))"

definition try_fastcgi :: "('w, 'p, 'f) backend \<Rightarrow> u32 \<Rightarrow> http_request \<Rightarrow> server_config \<Rightarrow> socket_addr \<Rightarrow>
    ('w, 'p, 'f, bool) h2_action" where
  "try_fastcgi be sid req cfg peer =
     (if \<not> be_fastcgi_matches be req cfg then ret False
      else with_state (\<lambda>s.
        case be_fastcgi_begin be (cn_world s) req cfg (cn_secure s) peer of
          (w, r) \<Rightarrow>
            then_do (update_state (\<lambda>s. s\<lparr>cn_world := w\<rparr>))
              (case r of
                 Inr (Some src) \<Rightarrow> then_do (update_state (await_headers sid (FastCgiSource src) req cfg)) (ret True)
               | Inr None \<Rightarrow> ret False
               | Inl _ \<Rightarrow> then_do (queue_h2_response be sid (bad_gateway ''502 Bad Gateway: FastCGI upstream failure''))
                            (ret True))))"

definition handle_static :: "('w, 'p, 'f) backend \<Rightarrow> u32 \<Rightarrow> http_request \<Rightarrow> socket_addr option \<Rightarrow> ('w, 'p, 'f, unit) h2_action" where
  "handle_static be sid req peer =
     with_state (\<lambda>s.
       case be_handle_request be (cn_world s) req peer of
         (w, resp) \<Rightarrow> then_do (update_state (\<lambda>s. s\<lparr>cn_world := w\<rparr>)) (queue_h2_response be sid resp))"

definition dispatch_h2_request :: "('w, 'p, 'f) backend \<Rightarrow> stream \<Rightarrow> socket_addr option \<Rightarrow> ('w, 'p, 'f, unit) h2_action" where
  "dispatch_h2_request be st peer =
     then_do (of_result (validate_request_headers (st_request_headers st)))
       (let req = h2_request st; cfg = be_effective_config be req;
            fwd = (case peer of Some a \<Rightarrow> a | None \<Rightarrow> (V4 0, 0))
        in then_do (of_result (validate_content_length (rq_headers req) (length (st_request_body st))))
             (and_then (try_proxy be (st_id st) req cfg fwd) (\<lambda>settled.
                if settled then ret ()
                else and_then (try_fastcgi be (st_id st) req cfg fwd) (\<lambda>settled.
                  if settled then ret () else handle_static be (st_id st) req peer))))"

section \<open>Frames\<close>

fun adjust_values :: "('v \<Rightarrow> 'e + 'v) \<Rightarrow> ('k \<times> 'v) list \<Rightarrow> ('k \<times> 'v) list \<times> ('e + unit)" where
  "adjust_values f [] = ([], Inr ())"
| "adjust_values f ((k, v) # xs) =
     (case f v of
        Inl e \<Rightarrow> ((k, v) # xs, Inl e)
      | Inr v' \<Rightarrow> (case adjust_values f xs of (ys, r) \<Rightarrow> ((k, v') # ys, r)))"

definition adjust_stream :: "int \<Rightarrow> stream \<Rightarrow> http2_error_code + stream" where
  "adjust_stream delta st =
     (case window_adjust (st_send_window st) delta of Inl e \<Rightarrow> Inl e | Inr w \<Rightarrow> Inr (st\<lparr>st_send_window := w\<rparr>))"

definition adjust_active :: "int \<Rightarrow> ('w, 'p, 'f, unit) h2_action" where
  "adjust_active delta = (\<lambda>s. case adjust_values (adjust_stream delta) (cn_active_streams s) of
     (xs, r) \<Rightarrow> (s\<lparr>cn_active_streams := xs\<rparr>, r))"

definition adjust_send_windows :: "int \<Rightarrow> ('w, 'p, 'f, unit) h2_action" where
  "adjust_send_windows delta = (\<lambda>s. case adjust_values (\<lambda>w. window_adjust w delta) (cn_send_stream_windows s) of
     (xs, r) \<Rightarrow> (s\<lparr>cn_send_stream_windows := xs\<rparr>, r))"

definition apply_setting :: "setting_id \<times> u32 \<Rightarrow> ('w, 'p, 'f, unit) h2_action" where
  "apply_setting sv =
     (case sv of (i, val) \<Rightarrow>
      if i = MaxFrameSize then
        (if val < 16384 \<or> val > 16777215 then fail FrameSizeError
         else update_state (\<lambda>s. s\<lparr>cn_peer_max_frame_size := val\<rparr>))
      else if i = InitialWindowSize then
        (if val > 2147483647 then fail FlowControlError
         else with_state (\<lambda>s.
           let delta = uint val - uint (cn_peer_initial_stream_window_size s) in
           then_do (adjust_active delta)
             (then_do (adjust_send_windows delta)
               (update_state (\<lambda>s. s\<lparr>cn_peer_initial_stream_window_size := val\<rparr>)))))
      else ret ())"

definition on_settings :: "(setting_id \<times> u32) list \<Rightarrow> bool \<Rightarrow> ('w, 'p, 'f, unit) h2_action" where
  "on_settings settings ack =
     (if ack then ret ()
      else then_do (for_each apply_setting settings)
             (emit_ignoring (mk_frame 0 SettingsT ACK 0 (Settings [] True))))"

definition on_ping :: "bytes \<Rightarrow> bool \<Rightarrow> ('w, 'p, 'f, unit) h2_action" where
  "on_ping opaque ack =
     when_do (\<not> ack) (emit_ignoring (mk_frame 8 PingT ACK 0 (Ping opaque True)))"

definition decode_block :: "bytes \<Rightarrow> ('w, 'p, 'f, headers) h2_action" where
  "decode_block block = (\<lambda>s. case decode_header_block (cn_hpack_decoder s) block of
     (d, r) \<Rightarrow> (s\<lparr>cn_hpack_decoder := d\<rparr>, r))"

definition end_remote :: "stream \<Rightarrow> stream" where
  "end_remote st = (case transition_to st HalfClosedRemote of Inl _ \<Rightarrow> st | Inr st' \<Rightarrow> st')"

text \<open>The part that the arms of HEADERS and CONTINUATION share once the block is complete.\<close>

definition finish_headers :: "('w, 'p, 'f) backend \<Rightarrow> socket_addr option \<Rightarrow> u32 \<Rightarrow> headers \<Rightarrow> ('w, 'p, 'f, unit) h2_action" where
  "finish_headers be peer sid hs =
     with_state (\<lambda>s. case map_of (cn_active_streams s) sid of
         None \<Rightarrow> ret ()
       | Some st0 \<Rightarrow>
           let st = append_request_headers st0 hs True in
           if st_received_end_stream st then
             then_do (update_state (put_active sid (end_remote st)))
               (then_do (dispatch_h2_request be (end_remote st) peer) (update_state (remove_active sid)))
           else update_state (put_active sid st))"

definition open_stream :: "u32 \<Rightarrow> bool \<Rightarrow> ('w, 'p, 'f, unit) h2_action" where
  "open_stream sid end_stream =
     with_state (\<lambda>s.
       and_then (of_result (stream_new sid (fc_initial_stream_window_size (cn_flow_control s)))) (\<lambda>st.
         let w = window_new (cn_peer_initial_stream_window_size s) in
         then_do (update_state (put_window sid w))
           (and_then (of_result (transition_to (st\<lparr>st_send_window := w\<rparr>) Open)) (\<lambda>st.
              update_state (put_active sid (st\<lparr>st_received_end_stream := end_stream\<rparr>))))))"

definition on_headers :: "('w, 'p, 'f) backend \<Rightarrow> socket_addr option \<Rightarrow> u32 \<Rightarrow> bytes \<Rightarrow> bool \<Rightarrow> bool \<Rightarrow>
    ('w, 'p, 'f, unit) h2_action" where
  "on_headers be peer sid block end_stream end_headers =
     with_state (\<lambda>s.
       if sid = 0 \<or> \<not> is_client_initiated sid then fail ProtocolError
       else if sid \<le> cn_last_stream_id s then fail ProtocolError
       else then_do (update_state (\<lambda>s. s\<lparr>cn_last_stream_id := sid\<rparr>))
         (if \<not> can_accept_new_stream s then
            then_do (emit (rst_frame sid RefusedStream)) (update_state (mark_closed_stream sid))
          else then_do (open_stream sid end_stream)
            (if end_headers then and_then (decode_block block) (finish_headers be peer sid)
             else if length block > sc_http2_max_header_block_size (cn_config s) then fail EnhanceYourCalm
             else update_state (\<lambda>s. s\<lparr>cn_pending_headers_stream_id := Some sid, cn_pending_header_block := block\<rparr>))))"

definition on_continuation :: "('w, 'p, 'f) backend \<Rightarrow> socket_addr option \<Rightarrow> u32 \<Rightarrow> bytes \<Rightarrow> bool \<Rightarrow>
    ('w, 'p, 'f, unit) h2_action" where
  "on_continuation be peer sid block end_headers =
     with_state (\<lambda>s.
       let whole = cn_pending_header_block s @ block in
       if length whole > usize_max then fail EnhanceYourCalm
       else if length whole > sc_http2_max_header_block_size (cn_config s) then fail EnhanceYourCalm
       else then_do (update_state (\<lambda>s. s\<lparr>cn_pending_header_block := whole\<rparr>))
         (when_do end_headers
           (then_do (update_state (\<lambda>s. s\<lparr>cn_pending_headers_stream_id := None\<rparr>))
             (and_then (decode_block whole) (\<lambda>hs.
                then_do (update_state (\<lambda>s. s\<lparr>cn_pending_header_block := []\<rparr>))
                  (finish_headers be peer sid hs))))))"

definition set_connection_window :: "window \<Rightarrow> ('w, 'p, 'f) h2_conn \<Rightarrow> ('w, 'p, 'f) h2_conn" where
  "set_connection_window w s = s\<lparr>cn_flow_control := (cn_flow_control s)\<lparr>fc_connection_window := w\<rparr>\<rparr>"

text \<open>
  The receive side of flow control: both windows pay for the data and are replenished at once,
  and both updates are announced. The stream has been taken out of the map.
\<close>

definition receive_credit :: "u32 \<Rightarrow> stream \<Rightarrow> u32 \<Rightarrow> ('w, 'p, 'f, stream) h2_action" where
  "receive_credit sid st n =
     with_state (\<lambda>s.
       if as_i32 (uint n) > available (fc_connection_window (cn_flow_control s)) then fail FlowControlError
       else if as_i32 (uint n) > available (st_window st) then fail FlowControlError
       else and_then (of_result (window_consume (fc_connection_window (cn_flow_control s)) n)) (\<lambda>cw.
         then_do (update_state (set_connection_window cw))
         (and_then (of_result (window_consume (st_window st) n)) (\<lambda>sw.
          and_then (of_result (window_update cw n)) (\<lambda>cw.
          then_do (update_state (set_connection_window cw))
          (and_then (of_result (window_update sw n)) (\<lambda>sw.
           then_do (emit (window_update_frame 0 n))
             (then_do (emit (window_update_frame sid n))
               (ret (st\<lparr>st_window := sw\<rparr>)))))))))) "

definition on_data :: "('w, 'p, 'f) backend \<Rightarrow> socket_addr option \<Rightarrow> u32 \<Rightarrow> bytes \<Rightarrow> bool \<Rightarrow> ('w, 'p, 'f, unit) h2_action" where
  "on_data be peer sid d end_stream =
     with_state (\<lambda>s. case map_of (cn_active_streams s) sid of
         None \<Rightarrow> fail StreamClosed
       | Some st \<Rightarrow>
           let n = of_nat (length d) in
           then_do (update_state (remove_active sid))
             (and_then (if n > 0 then receive_credit sid st n else ret st) (\<lambda>st.
                if length d > sc_max_request_size (cn_config s) - length (st_request_body st)
                then fail EnhanceYourCalm
                else and_then (of_result (append_request_data st d end_stream)) (\<lambda>st.
                  if end_stream then dispatch_h2_request be st peer
                  else update_state (put_active sid st)))))"

definition on_window_update :: "u32 \<Rightarrow> u32 \<Rightarrow> ('w, 'p, 'f, unit) h2_action" where
  "on_window_update sid n =
     with_state (\<lambda>s.
       if sid = 0 then
         and_then (of_result (window_update (cn_peer_connection_window s) n))
           (\<lambda>w. update_state (\<lambda>s. s\<lparr>cn_peer_connection_window := w\<rparr>))
       else case map_of (cn_active_streams s) sid of
              Some st \<Rightarrow>
                and_then (of_result (window_update (st_send_window st) n)) (\<lambda>w.
                  then_do (update_state (put_active sid (st\<lparr>st_send_window := w\<rparr>)))
                  (let v = (case map_of (cn_send_stream_windows s) sid of
                              Some v \<Rightarrow> v | None \<Rightarrow> window_new (cn_peer_initial_stream_window_size s))
                   in then_do (update_state (put_window sid v))
                        (and_then (of_result (window_update v n)) (\<lambda>v. update_state (put_window sid v)))))
            | None \<Rightarrow>
                (case map_of (cn_send_stream_windows s) sid of
                   Some v \<Rightarrow> and_then (of_result (window_update v n)) (\<lambda>v. update_state (put_window sid v))
                 | None \<Rightarrow> if sid \<in> set (cn_closed_streams s) then ret () else fail ProtocolError))"

definition on_rst_stream :: "u32 \<Rightarrow> ('w, 'p, 'f, unit) h2_action" where
  "on_rst_stream sid =
     update_state (\<lambda>s. mark_closed_stream sid
       ((remove_window sid (remove_active sid s))
          \<lparr>cn_pending_responses := filter (\<lambda>p. pn_stream_id p \<noteq> sid) (cn_pending_responses s),
           cn_pending_header_responses := filter (\<lambda>p. ph_stream_id p \<noteq> sid) (cn_pending_header_responses s)\<rparr>))"

text \<open>A header block in progress admits only its CONTINUATION frames, and nothing else does.\<close>

definition continuation_violated :: "('w, 'p, 'f) h2_conn \<Rightarrow> frame \<Rightarrow> bool" where
  "continuation_violated s f =
     (case cn_pending_headers_stream_id s of
        Some expected \<Rightarrow> fh_stream_id (fr_header f) \<noteq> expected \<or> fh_type (fr_header f) \<noteq> ContinuationT
      | None \<Rightarrow> fh_type (fr_header f) = ContinuationT)"

definition process_frame :: "('w, 'p, 'f) backend \<Rightarrow> socket_addr option \<Rightarrow> frame \<Rightarrow> ('w, 'p, 'f, unit) h2_action" where
  "process_frame be peer f =
     (let sid = fh_stream_id (fr_header f) in
      with_state (\<lambda>s.
        if continuation_violated s f then fail ProtocolError
        else case fr_payload f of
               Settings settings ack \<Rightarrow> on_settings settings ack
             | Ping opaque ack \<Rightarrow> on_ping opaque ack
             | Headers block end_stream end_headers \<Rightarrow> on_headers be peer sid block end_stream end_headers
             | Continuation block end_headers \<Rightarrow> on_continuation be peer sid block end_headers
             | Data d end_stream \<Rightarrow> on_data be peer sid d end_stream
             | WindowUpdate n \<Rightarrow> on_window_update sid n
             | RstStream _ \<Rightarrow> on_rst_stream sid
             | GoAway _ _ _ \<Rightarrow> fail NoError
             | _ \<Rightarrow> ret ()))"

section \<open>Waiting for upstream headers\<close>

definition poll_source :: "('w, 'p, 'f) backend \<Rightarrow> ('p, 'f) pending_header_source \<Rightarrow>
    ('w, 'p, 'f, ('p, 'f) pending_header_source \<times> (unit + h2_response option)) h2_action" where
  "poll_source be src = (\<lambda>s.
     case src of
       ProxySource p \<Rightarrow>
         (case be_proxy_poll be (cn_world s) p of (w, p', r) \<Rightarrow> (s\<lparr>cn_world := w\<rparr>, Inr (ProxySource p', r)))
     | FastCgiSource p \<Rightarrow>
         (case be_fastcgi_poll be (cn_world s) p of (w, p', r) \<Rightarrow> (s\<lparr>cn_world := w\<rparr>, Inr (FastCgiSource p', r))))"

definition compress_response :: "(nat \<Rightarrow> source \<Rightarrow> source) \<Rightarrow> bool \<Rightarrow> nat \<Rightarrow> h2_response \<Rightarrow> h2_response" where
  "compress_response gz compress level r =
     (case r of (resp, reader, remaining) \<Rightarrow>
      if compress \<and> reader \<noteq> None \<and> dynamic_response_compressible resp then
        (resp\<lparr>rs_headers := ensure_vary
           (remove_header (remove_header (rs_headers resp) ''Content-Length'') ''Content-Encoding''
              @ [(''Content-Encoding'', ''gzip'')])\<rparr>,
         map_option (gz level) reader, None)
      else r)"

definition headers_ready :: "('w, 'p, 'f) backend \<Rightarrow> ('p, 'f) pending_header_response \<Rightarrow> h2_response \<Rightarrow>
    ('w, 'p, 'f, unit) h2_action" where
  "headers_ready be pend r =
     (case compress_response (be_gzip be) (ph_compress pend) (ph_compression_level pend) r of
        (resp, reader, remaining) \<Rightarrow>
          queue_h2_stream_response be (ph_stream_id pend) resp
            (map_option (\<lambda>rd. ReaderPending rd remaining) reader))"

definition poll_pop :: "('w, 'p, 'f) h2_conn \<Rightarrow> ('w, 'p, 'f) h2_conn" where
  "poll_pop s = s\<lparr>cn_pending_header_responses := tl (cn_pending_header_responses s)\<rparr>"

definition poll_push :: "('p, 'f) pending_header_response \<Rightarrow> ('w, 'p, 'f) h2_conn \<Rightarrow> ('w, 'p, 'f) h2_conn" where
  "poll_push pend s = s\<lparr>cn_pending_header_responses := cn_pending_header_responses s @ [pend]\<rparr>"

text \<open>One pending response: whether it made progress.\<close>

definition poll_one :: "('w, 'p, 'f) backend \<Rightarrow> ('p, 'f) pending_header_response \<Rightarrow> ('w, 'p, 'f, bool) h2_action" where
  "poll_one be pend =
     and_then (poll_source be (ph_source pend)) (\<lambda>(src, r).
       case r of
         Inr None \<Rightarrow> then_do (update_state (poll_push (pend\<lparr>ph_source := src\<rparr>))) (ret False)
       | Inr (Some resp) \<Rightarrow> then_do (headers_ready be pend resp) (ret True)
       | Inl _ \<Rightarrow>
           then_do (emit (rst_frame (ph_stream_id pend) InternalError))
             (then_do (update_state (finish_stream (ph_stream_id pend))) (ret True)))"

fun poll_rounds :: "('w, 'p, 'f) backend \<Rightarrow> nat \<Rightarrow> bool \<Rightarrow> ('w, 'p, 'f, bool) h2_action" where
  "poll_rounds be 0 progressed = ret progressed"
| "poll_rounds be (Suc n) progressed =
     with_state (\<lambda>s. case cn_pending_header_responses s of
         [] \<Rightarrow> ret progressed
       | pend # _ \<Rightarrow>
           then_do (update_state poll_pop)
             (and_then (poll_one be pend) (\<lambda>b. poll_rounds be n (progressed \<or> b))))"

definition poll_pending_headers :: "('w, 'p, 'f) backend \<Rightarrow> ('w, 'p, 'f, bool) h2_action" where
  "poll_pending_headers be =
     with_state (\<lambda>s.
       and_then (poll_rounds be (length (cn_pending_header_responses s)) False) (\<lambda>progressed.
         then_do (when_do progressed flush_out) (ret progressed)))"

section \<open>Scheduling response bodies\<close>

definition push_pending :: "pending_response \<Rightarrow> ('w, 'p, 'f) h2_conn \<Rightarrow> ('w, 'p, 'f) h2_conn" where
  "push_pending p s = s\<lparr>cn_pending_responses := cn_pending_responses s @ [p]\<rparr>"

definition pop_pending :: "('w, 'p, 'f) h2_conn \<Rightarrow> ('w, 'p, 'f) h2_conn" where
  "pop_pending s = s\<lparr>cn_pending_responses := tl (cn_pending_responses s)\<rparr>"

definition send_reset :: "u32 \<Rightarrow> http2_error_code \<Rightarrow> ('w, 'p, 'f, bool) h2_action" where
  "send_reset sid err =
     then_do (emit (rst_frame sid err)) (then_do (update_state (finish_stream sid)) (ret True))"

text \<open>What is sent for a body that delivered data, or ended.\<close>

definition send_data :: "pending_response \<Rightarrow> bytes \<Rightarrow> bool \<Rightarrow> ('w, 'p, 'f, bool) h2_action" where
  "send_data p d done =
     (let sid = pn_stream_id p; n = of_nat (length d) in
      if d = [] then
        (if \<not> done then then_do (update_state (push_pending p)) (ret False)
         else then_do (emit (data_frame sid [] True)) (then_do (update_state (finish_stream sid)) (ret True)))
      else with_state (\<lambda>s.
        and_then (of_result (window_consume (cn_peer_connection_window s) n)) (\<lambda>cw.
        then_do (update_state (\<lambda>s. s\<lparr>cn_peer_connection_window := cw\<rparr>))
        (case map_of (cn_send_stream_windows s) sid of
           None \<Rightarrow> fail StreamClosed
         | Some w \<Rightarrow>
             and_then (of_result (window_consume w n)) (\<lambda>w.
             then_do (update_state (put_window sid w))
             (then_do (emit (data_frame sid d done))
             (then_do (update_state (if done then finish_stream sid else push_pending p)) (ret True))))))))"

definition chunk_amount :: "nat \<Rightarrow> u32 \<Rightarrow> int \<Rightarrow> int \<Rightarrow> nat" where
  "chunk_amount quota peer_max conn_avail stream_avail =
     min (min (min quota (unat peer_max)) (nat conn_avail)) (nat stream_avail)"

text \<open>One pending response, already taken off the queue: whether a frame was sent.\<close>

definition schedule_one :: "nat \<Rightarrow> pending_response \<Rightarrow> ('w, 'p, 'f, bool) h2_action" where
  "schedule_one quota p =
     with_state (\<lambda>s.
       case map_of (cn_send_stream_windows s) (pn_stream_id p) of
         None \<Rightarrow> ret False
       | Some w \<Rightarrow>
           if available w \<le> 0 \<or> available (cn_peer_connection_window s) \<le> 0
           then then_do (update_state (push_pending p)) (ret False)
           else
             (case read_chunk (pn_body p)
                     (chunk_amount quota (cn_peer_max_frame_size s) (available (cn_peer_connection_window s)) (available w)) of
                (_, Inl err) \<Rightarrow> send_reset (pn_stream_id p) err
              | (body, Inr (ReadData d done)) \<Rightarrow> send_data (p\<lparr>pn_body := body\<rparr>) d done
              | (body, Inr ReadPending) \<Rightarrow> then_do (update_state (push_pending (p\<lparr>pn_body := body\<rparr>))) (ret False)
              | (body, Inr ReadDone) \<Rightarrow> send_data (p\<lparr>pn_body := body\<rparr>) [] True))"

fun schedule_rounds :: "nat \<Rightarrow> nat \<Rightarrow> bool \<Rightarrow> ('w, 'p, 'f, bool) h2_action" where
  "schedule_rounds quota 0 sent = ret sent"
| "schedule_rounds quota (Suc n) sent =
     with_state (\<lambda>s. case cn_pending_responses s of
         [] \<Rightarrow> ret sent
       | p # _ \<Rightarrow>
           then_do (update_state pop_pending)
             (and_then (schedule_one quota p) (\<lambda>b. schedule_rounds quota n (sent \<or> b))))"

definition schedule_pending_responses :: "('w, 'p, 'f, bool) h2_action" where
  "schedule_pending_responses =
     with_state (\<lambda>s.
       let rounds = length (cn_pending_responses s); avail = available (cn_peer_connection_window s) in
       if rounds = 0 \<or> avail \<le> 0 then ret False
       else and_then (schedule_rounds (max (nat avail div rounds) 1) rounds False) (\<lambda>sent.
         then_do (when_do sent flush_out) (ret sent)))"

section \<open>The main loop\<close>

definition CLIENT_PREFACE :: bytes where
  "CLIENT_PREFACE = str_bytes (''PRI * HTTP/2.0'' @ [CR, LF, CR, LF] @ ''SM'' @ [CR, LF, CR, LF])"

datatype fill_result = Filled | PeerClosed | ReadTimedOut | ReadFailed

text \<open>Read until the buffer holds \<open>n\<close> bytes; each read takes at most \<open>chunk\<close> bytes.\<close>

function fill_to :: "nat \<Rightarrow> nat \<Rightarrow> ('w, 'p, 'f) h2_conn \<Rightarrow> ('w, 'p, 'f) h2_conn \<times> fill_result" where
  "fill_to chunk n s =
     (if length (cn_read_buffer s) \<ge> n \<or> chunk = 0 then (s, Filled)
      else case io_read (cn_in s) chunk of
             (Inl k, inp) \<Rightarrow>
               (s\<lparr>cn_in := inp\<rparr>, if k = WouldBlock \<or> k = TimedOut then ReadTimedOut else ReadFailed)
           | (Inr bs, inp) \<Rightarrow>
               if bs = [] then (s\<lparr>cn_in := inp\<rparr>, PeerClosed)
               else fill_to chunk n (s\<lparr>cn_in := inp, cn_read_buffer := cn_read_buffer s @ bs\<rparr>))"
  by pat_completeness auto
termination
  by (relation "measure (\<lambda>(c, n, s). source_size (cn_in s))") (auto dest: io_read_progress)

declare fill_to.simps [simp del]

text \<open>How the connection ended: \<open>Ok(())\<close>, or the error of a read or write.\<close>

datatype conn_end = EndOk | EndIoError

text \<open>\<open>self.send_goaway(..)?; return Ok(())\<close>, and the form of the \<open>break\<close>s, which ignores the result.\<close>

definition goaway_return :: "http2_error_code \<Rightarrow> ('w, 'p, 'f) h2_conn \<Rightarrow> ('w, 'p, 'f) h2_conn \<times> conn_end option" where
  "goaway_return err s =
     (case send_goaway (cn_last_stream_id s) err s of (s', ok) \<Rightarrow> (s', Some (if ok then EndOk else EndIoError)))"

definition goaway_break :: "http2_error_code \<Rightarrow> ('w, 'p, 'f) h2_conn \<Rightarrow> ('w, 'p, 'f) h2_conn \<times> conn_end option" where
  "goaway_break err s = (fst (send_goaway (cn_last_stream_id s) err s), Some EndOk)"

definition run_frame :: "('w, 'p, 'f) backend \<Rightarrow> socket_addr option \<Rightarrow> frame \<Rightarrow> ('w, 'p, 'f) h2_conn \<Rightarrow>
    ('w, 'p, 'f) h2_conn \<times> conn_end option" where
  "run_frame be peer f s =
     (case process_frame be peer f s of
        (s', Inl err) \<Rightarrow> goaway_break err s'
      | (s', Inr _) \<Rightarrow> (s', None))"

definition fill_end :: "fill_result \<Rightarrow> conn_end option" where
  "fill_end r = (case r of PeerClosed \<Rightarrow> Some EndOk | ReadFailed \<Rightarrow> Some EndIoError | _ \<Rightarrow> None)"

definition read_frame :: "('w, 'p, 'f) backend \<Rightarrow> socket_addr option \<Rightarrow> ('w, 'p, 'f) h2_conn \<Rightarrow>
    ('w, 'p, 'f) h2_conn \<times> conn_end option" where
  "read_frame be peer s =
     (case fill_to 4096 FRAME_HEADER_SIZE s of (s, r) \<Rightarrow>
      if r \<noteq> Filled then (s, fill_end r)
      else case header_parse (take FRAME_HEADER_SIZE (cn_read_buffer s)) of
        Inl err \<Rightarrow> goaway_return err s
      | Inr h \<Rightarrow>
          if fh_length h > cn_max_frame_size s then goaway_return FrameSizeError s
          else (case fill_to 4096 (FRAME_HEADER_SIZE + unat (fh_length h)) s of (s, r) \<Rightarrow>
            if r \<noteq> Filled then (s, fill_end r)
            else
              let total = FRAME_HEADER_SIZE + unat (fh_length h) in
              case frame_parse h (drop FRAME_HEADER_SIZE (take total (cn_read_buffer s))) of
                Inl err \<Rightarrow> goaway_return err s
              | Inr f \<Rightarrow> run_frame be peer f (s\<lparr>cn_read_buffer := drop total (cn_read_buffer s)\<rparr>)))"

text \<open>
  One turn of the loop: \<open>None\<close> when it goes on. First the upstream responses, then the bodies,
  then a frame.
\<close>

definition serve_turn :: "('w, 'p, 'f) backend \<Rightarrow> socket_addr option \<Rightarrow> ('w, 'p, 'f) h2_conn \<Rightarrow>
    ('w, 'p, 'f) h2_conn \<times> conn_end option" where
  "serve_turn be peer s =
     (case schedule_pending_responses s of
        (s, Inl err) \<Rightarrow> goaway_break err s
      | (s, Inr sent) \<Rightarrow>
          if sent then (s, None)
          else (case cn_deferred_frames s of
                  f # fs \<Rightarrow> run_frame be peer f (s\<lparr>cn_deferred_frames := fs\<rparr>)
                | [] \<Rightarrow> read_frame be peer s))"

definition main_turn :: "('w, 'p, 'f) backend \<Rightarrow> socket_addr option \<Rightarrow> ('w, 'p, 'f) h2_conn \<Rightarrow>
    ('w, 'p, 'f) h2_conn \<times> conn_end option" where
  "main_turn be peer s =
     (case poll_pending_headers be s of
        (s, Inl err) \<Rightarrow> goaway_break err s
      | (s, Inr progressed) \<Rightarrow> if progressed then (s, None) else serve_turn be peer s)"

section \<open>What frames and responses leave alone\<close>

text \<open>The part of the state that only the reads of the main loop change.\<close>

definition reader_view :: "('w, 'p, 'f) h2_conn \<Rightarrow> source \<times> bytes \<times> frame list \<times> server_config \<times> nat \<times> u32" where
  "reader_view s = (cn_in s, cn_read_buffer s, cn_deferred_frames s, cn_config s, cn_max_concurrent_streams s, cn_max_frame_size s)"

abbreviation keeps_reader :: "('w, 'p, 'f, 'a) h2_action \<Rightarrow> bool" where
  "keeps_reader m \<equiv> (\<forall>c. keeps (\<lambda>s. reader_view s = c) m)"

lemma view_write_out [simp]: "reader_view (fst (write_out bs s)) = reader_view s"
  by (simp add: write_out_def reader_view_def split: prod.splits)

lemma view_updates [simp]:
  "reader_view (mark_closed_stream sid s) = reader_view s"
  "reader_view (remove_window sid s) = reader_view s"
  "reader_view (remove_active sid s) = reader_view s"
  "reader_view (put_active sid st s) = reader_view s"
  "reader_view (put_window sid w s) = reader_view s"
  "reader_view (set_connection_window w s) = reader_view s"
  "reader_view (await_headers sid src req cfg s) = reader_view s"
  "reader_view (poll_pop s) = reader_view s"
  "reader_view (poll_push ph s) = reader_view s"
  "reader_view (push_pending p s) = reader_view s"
  "reader_view (pop_pending s) = reader_view s"
  "reader_view (s\<lparr>cn_world := w'\<rparr>) = reader_view s"
  "reader_view (s\<lparr>cn_hpack_decoder := d\<rparr>) = reader_view s"
  "reader_view (s\<lparr>cn_active_streams := as\<rparr>) = reader_view s"
  "reader_view (s\<lparr>cn_send_stream_windows := ws\<rparr>) = reader_view s"
  "reader_view (s\<lparr>cn_pending_responses := ps\<rparr>) = reader_view s"
  "reader_view (s\<lparr>cn_pending_header_responses := phs\<rparr>) = reader_view s"
  "reader_view (s\<lparr>cn_peer_max_frame_size := n\<rparr>) = reader_view s"
  "reader_view (s\<lparr>cn_peer_initial_stream_window_size := n\<rparr>) = reader_view s"
  "reader_view (s\<lparr>cn_peer_connection_window := w\<rparr>) = reader_view s"
  "reader_view (s\<lparr>cn_last_stream_id := sid\<rparr>) = reader_view s"
  "reader_view (s\<lparr>cn_pending_headers_stream_id := pid\<rparr>) = reader_view s"
  "reader_view (s\<lparr>cn_pending_header_block := bs\<rparr>) = reader_view s"
  by (simp_all add: reader_view_def mark_closed_stream_def remove_window_def remove_active_def put_active_def
      put_window_def set_connection_window_def await_headers_def poll_pop_def poll_push_def push_pending_def
      pop_pending_def Let_def)

lemma view_finish_stream [simp]: "reader_view (finish_stream sid s) = reader_view s"
  by (simp add: finish_stream_def)

lemma reader_emit [intro, simp]: "keeps (\<lambda>s. reader_view s = c) (emit f)"
  "keeps (\<lambda>s. reader_view s = c) flush_out" "keeps (\<lambda>s. reader_view s = c) (emit_ignoring f)"
  by (auto simp: keeps_def emit_def flush_out_def emit_ignoring_def update_state_def split: prod.splits)
     (metis fst_conv view_write_out)+

lemma reader_lifted [intro, simp]:
  "keeps (\<lambda>s. reader_view s = c) (adjust_active d)"
  "keeps (\<lambda>s. reader_view s = c) (adjust_send_windows d)"
  "keeps (\<lambda>s. reader_view s = c) (decode_block bs)"
  "keeps (\<lambda>s. reader_view s = c) (poll_source be src)"
  by (auto simp: keeps_def adjust_active_def adjust_send_windows_def decode_block_def poll_source_def
      split: prod.splits pending_header_source.splits)

lemma reader_queue [intro, simp]:
  "keeps (\<lambda>s. reader_view s = c) (queue_h2_stream_response be sid resp b)"
  "keeps (\<lambda>s. reader_view s = c) (queue_h2_response be sid resp)"
  unfolding queue_h2_stream_response_def queue_h2_response_def Let_def
  by (intro keeps_intros reader_emit keeps_of_result; simp)+

lemma reader_dispatch [intro, simp]:
  "keeps (\<lambda>s. reader_view s = c) (try_proxy be sid req cfg a)"
  "keeps (\<lambda>s. reader_view s = c) (try_fastcgi be sid req cfg a)"
  "keeps (\<lambda>s. reader_view s = c) (handle_static be sid req peer)"
  "keeps (\<lambda>s. reader_view s = c) (dispatch_h2_request be st peer)"
  unfolding try_proxy_def try_fastcgi_def handle_static_def dispatch_h2_request_def Let_def
  by (auto intro!: keeps_intros split: prod.splits sum.splits option.splits)

lemma reader_settings [intro, simp]:
  "keeps (\<lambda>s. reader_view s = c) (apply_setting sv)"
  "keeps (\<lambda>s. reader_view s = c) (on_settings settings ack)"
  "keeps (\<lambda>s. reader_view s = c) (on_ping opaque ack)"
  unfolding apply_setting_def on_settings_def on_ping_def Let_def
  by (auto intro!: keeps_intros split: prod.splits)

lemma reader_headers [intro, simp]:
  "keeps (\<lambda>s. reader_view s = c) (finish_headers be peer sid hs)"
  "keeps (\<lambda>s. reader_view s = c) (open_stream sid es)"
  "keeps (\<lambda>s. reader_view s = c) (on_headers be peer sid block es eh)"
  "keeps (\<lambda>s. reader_view s = c) (on_continuation be peer sid block eh)"
  unfolding finish_headers_def open_stream_def on_headers_def on_continuation_def Let_def
  by (auto intro!: keeps_intros split: option.splits)

lemma reader_data [intro, simp]:
  "keeps (\<lambda>s. reader_view s = c) (receive_credit sid st n)"
  "keeps (\<lambda>s. reader_view s = c) (on_data be peer sid d es)"
  "keeps (\<lambda>s. reader_view s = c) (on_window_update sid n)"
  "keeps (\<lambda>s. reader_view s = c) (on_rst_stream sid)"
  unfolding receive_credit_def on_data_def on_window_update_def on_rst_stream_def Let_def
  by (auto intro!: keeps_intros split: option.splits)

lemma reader_process_frame [intro, simp]: "keeps (\<lambda>s. reader_view s = c) (process_frame be peer f)"
  unfolding process_frame_def Let_def
  by (auto intro!: keeps_intros split: frame_payload.splits)

lemma reader_poll [intro, simp]:
  "keeps (\<lambda>s. reader_view s = c) (poll_one be pend)"
  unfolding poll_one_def headers_ready_def
  by (auto intro!: keeps_intros split: sum.splits option.splits prod.splits)

lemma reader_poll_rounds [intro, simp]: "keeps (\<lambda>s. reader_view s = c) (poll_rounds be n b)"
  by (induction be n b rule: poll_rounds.induct) (auto intro!: keeps_intros split: list.splits)

lemma reader_poll_pending [intro, simp]: "keeps (\<lambda>s. reader_view s = c) (poll_pending_headers be)"
  unfolding poll_pending_headers_def by (auto intro!: keeps_intros)

lemma reader_schedule_one [intro, simp]:
  "keeps (\<lambda>s. reader_view s = c) (send_reset sid err)"
  "keeps (\<lambda>s. reader_view s = c) (send_data p d dn)"
  "keeps (\<lambda>s. reader_view s = c) (schedule_one quota p)"
  unfolding send_reset_def send_data_def schedule_one_def Let_def
  by (auto intro!: keeps_intros split: sum.splits option.splits prod.splits body_read.splits)

lemma reader_schedule_rounds [intro, simp]: "keeps (\<lambda>s. reader_view s = c) (schedule_rounds quota n b)"
  by (induction quota n b rule: schedule_rounds.induct) (auto intro!: keeps_intros split: list.splits)

lemma reader_schedule [intro, simp]: "keeps (\<lambda>s. reader_view s = c) schedule_pending_responses"
  unfolding schedule_pending_responses_def Let_def by (auto intro!: keeps_intros)

section \<open>Every turn makes progress\<close>

lemma io_read_takes: "io_read src n = (Inr bs, src') \<Longrightarrow> source_size src' + length bs \<le> source_size src"
  by (cases "(src, n)" rule: io_read.cases) (auto split: if_splits)

lemma io_read_ne: "io_read src n = (Inr bs, src') \<Longrightarrow> bs \<noteq> [] \<Longrightarrow> source_size src' < source_size src"
  by (cases "(src, n)" rule: io_read.cases) (auto split: if_splits)

lemma io_read_fault: "io_read src n = (Inl k, src') \<Longrightarrow> source_size src' < source_size src"
  by (cases "(src, n)" rule: io_read.cases) (auto split: if_splits)

fun body_size :: "pending_body \<Rightarrow> nat" where
  "body_size (BytesPending d offset) = length d - offset"
| "body_size (FilePending f n) = source_size f"
| "body_size (ReaderPending r n) = source_size r"

lemma read_chunk_size:
  assumes "read_chunk b mx = (b', Inr r)"
  shows "(case r of ReadData d dn \<Rightarrow> dn \<or> body_size b' \<le> body_size b \<and> (d \<noteq> [] \<longrightarrow> body_size b' < body_size b)
    | ReadPending \<Rightarrow> body_size b' < body_size b | ReadDone \<Rightarrow> True)"
proof (cases b)
  case (BytesPending d offset)
  with assms show ?thesis by (auto simp: read_bytes_body_def Let_def)
next
  case (FilePending f n)
  with assms show ?thesis
    by (auto simp: read_file_body_def split: prod.splits sum.splits if_splits dest: io_read_ne io_read_takes)
next
  case (ReaderPending rd n)
  with assms show ?thesis
    by (auto simp: read_reader_body_def Let_def split: prod.splits sum.splits if_splits option.splits
        dest: io_read_ne io_read_takes io_read_fault)
qed

definition total_size :: "('w, 'p, 'f) h2_conn \<Rightarrow> nat" where
  "total_size s = sum_list (map (\<lambda>p. Suc (body_size (pn_body p))) (cn_pending_responses s))"

text \<open>What the queue of upstream responses and the queue of bodies do not depend on.\<close>

lemma queues_simps [simp]:
  "cn_pending_header_responses (finish_stream sid s) = cn_pending_header_responses s"
  "cn_pending_header_responses (push_pending p s) = cn_pending_header_responses s"
  "cn_pending_header_responses (put_window sid w s) = cn_pending_header_responses s"
  "cn_pending_header_responses (fst (write_out bs s)) = cn_pending_header_responses s"
  "cn_pending_responses (finish_stream sid s) = cn_pending_responses s"
  "cn_pending_responses (put_window sid w s) = cn_pending_responses s"
  "cn_pending_responses (fst (write_out bs s)) = cn_pending_responses s"
  by (simp_all add: finish_stream_def mark_closed_stream_def remove_window_def push_pending_def put_window_def
      write_out_def Let_def split: prod.splits)

lemma wp_emit:
  "(\<And>out. Q () (s\<lparr>cn_out := out\<rparr>)) \<Longrightarrow> (\<And>out. E InternalError (s\<lparr>cn_out := out\<rparr>)) \<Longrightarrow> wp (emit f) Q E s"
  "(\<And>out. Q () (s\<lparr>cn_out := out\<rparr>)) \<Longrightarrow> (\<And>out. E InternalError (s\<lparr>cn_out := out\<rparr>)) \<Longrightarrow> wp flush_out Q E s"
  by (auto simp: wp_def emit_def flush_out_def write_out_def split: prod.splits)

lemma wp_poll_source:
  "(\<And>w src' r. Q (src', r) (s\<lparr>cn_world := w\<rparr>)) \<Longrightarrow> wp (poll_source be src) Q E s"
  by (auto simp: wp_def poll_source_def split: prod.splits pending_header_source.splits)

lemma keeps_out:
  assumes "\<And>s out. I (s\<lparr>cn_out := out\<rparr>) = I s"
  shows "keeps I (emit f)" "keeps I flush_out" "keeps I (emit_ignoring f)"
  using assms by (auto simp: keeps_def emit_def flush_out_def emit_ignoring_def update_state_def write_out_def split: prod.splits)

lemma queue_keeps_awaiting: "keeps (\<lambda>s. cn_pending_header_responses s = c) (queue_h2_stream_response be sid resp b)"
  unfolding queue_h2_stream_response_def Let_def
  by (auto intro!: keeps_intros keeps_out split: option.splits)

lemma poll_one_count:
  "wp (poll_one be pend) (\<lambda>b s'. length (cn_pending_header_responses s') = length (cn_pending_header_responses s) + (if b then 0 else 1)
     \<and> (b \<or> total_size s' = total_size s)) (\<lambda>_ _. True) s"
proof -
  let ?c = "cn_pending_header_responses s"
  have q: "wp (queue_h2_stream_response be sid resp b) (\<lambda>_ s'. cn_pending_header_responses s' = ?c) (\<lambda>_ _. True) s'"
    if "cn_pending_header_responses s' = ?c" for sid resp b s'
    using keepsD [OF queue_keeps_awaiting that] by (rule wp_weaken) simp_all
  show ?thesis
    unfolding poll_one_def headers_ready_def wp_and_then
    by (rule wp_poll_source)
       (auto simp: poll_push_def total_size_def wp_simps split: prod.splits sum.splits option.splits
         intro!: wp_emit wp_weaken [OF q])
qed

lemma poll_rounds_count:
  "wp (poll_rounds be n p) (\<lambda>b s'. length (cn_pending_header_responses s') \<le> length (cn_pending_header_responses s)
      \<and> (b \<longrightarrow> p \<or> length (cn_pending_header_responses s') < length (cn_pending_header_responses s))
      \<and> (p \<longrightarrow> b) \<and> (b \<or> total_size s' = total_size s)) (\<lambda>_ _. True) s"
proof (induction n arbitrary: p s)
  case (Suc n)
  show ?case
  proof (cases "cn_pending_header_responses s")
    case (Cons pend rest)
    then show ?thesis
      by (auto simp: wp_simps poll_pop_def total_size_def
          intro!: wp_weaken [OF poll_one_count] wp_weaken [OF Suc.IH] split: if_splits)
  qed (simp add: wp_simps)
qed (simp add: wp_simps)

lemma poll_pending_count:
  assumes "poll_pending_headers be s = (s', Inr b)"
  shows "length (cn_pending_header_responses s') \<le> length (cn_pending_header_responses s)
    \<and> (if b then length (cn_pending_header_responses s') < length (cn_pending_header_responses s)
       else total_size s' = total_size s)"
proof -
  have "wp (poll_pending_headers be) (\<lambda>b s'. length (cn_pending_header_responses s') \<le> length (cn_pending_header_responses s)
    \<and> (if b then length (cn_pending_header_responses s') < length (cn_pending_header_responses s)
       else total_size s' = total_size s)) (\<lambda>_ _. True) s"
    unfolding poll_pending_headers_def
    by (auto simp: wp_simps intro!: wp_weaken [OF poll_rounds_count] wp_emit)
  then show ?thesis using assms by (simp add: wp_def)
qed

lemma total_size_simps [simp]:
  "total_size (push_pending p s) = total_size s + Suc (body_size (pn_body p))"
  "total_size (finish_stream sid s) = total_size s"
  "total_size (s\<lparr>cn_out := out\<rparr>) = total_size s"
  by (simp_all add: total_size_def push_pending_def)

lemma send_data_size:
  assumes "\<not> dn \<longrightarrow> body_size (pn_body p) \<le> m \<and> (d \<noteq> [] \<longrightarrow> body_size (pn_body p) < m)"
  shows "wp (send_data p d dn) (\<lambda>b s'. cn_pending_header_responses s' = cn_pending_header_responses s
    \<and> total_size s' \<le> total_size s + Suc m \<and> (b \<longrightarrow> total_size s' < total_size s + Suc m)) (\<lambda>_ _. True) s"
  unfolding send_data_def Let_def using assms
  by (auto simp: wp_simps total_size_def push_pending_def intro!: wp_emit split: sum.splits option.splits)

lemma wp_schedule_one:
  assumes "map_of (cn_send_stream_windows s) (pn_stream_id p) = None \<Longrightarrow> Q False s"
    and "\<And>w. map_of (cn_send_stream_windows s) (pn_stream_id p) = Some w \<Longrightarrow>
      available w \<le> 0 \<or> available (cn_peer_connection_window s) \<le> 0 \<Longrightarrow> Q False (push_pending p s)"
    and "\<And>w amt b' r. map_of (cn_send_stream_windows s) (pn_stream_id p) = Some w \<Longrightarrow>
      0 < available w \<Longrightarrow> 0 < available (cn_peer_connection_window s) \<Longrightarrow>
      amt = chunk_amount quota (cn_peer_max_frame_size s) (available (cn_peer_connection_window s)) (available w) \<Longrightarrow>
      read_chunk (pn_body p) amt = (b', r) \<Longrightarrow>
      (case r of Inl e \<Rightarrow> wp (send_reset (pn_stream_id p) e) Q E s
       | Inr (ReadData d dn) \<Rightarrow> wp (send_data (p\<lparr>pn_body := b'\<rparr>) d dn) Q E s
       | Inr ReadPending \<Rightarrow> Q False (push_pending (p\<lparr>pn_body := b'\<rparr>) s)
       | Inr ReadDone \<Rightarrow> wp (send_data (p\<lparr>pn_body := b'\<rparr>) [] True) Q E s)"
  shows "wp (schedule_one quota p) Q E s"
proof (cases "map_of (cn_send_stream_windows s) (pn_stream_id p)")
  case None
  with assms(1) show ?thesis by (simp add: schedule_one_def wp_simps)
next
  case (Some w)
  let ?amt = "chunk_amount quota (cn_peer_max_frame_size s) (available (cn_peer_connection_window s)) (available w)"
  obtain b' r where r: "read_chunk (pn_body p) ?amt = (b', r)" by fastforce
  show ?thesis
    using assms(2) [OF Some] assms(3) [OF Some _ _ refl r] Some r
    by (auto simp: schedule_one_def wp_simps split: sum.splits body_read.splits)
qed

lemma schedule_one_size:
  "wp (schedule_one quota p) (\<lambda>b s'. cn_pending_header_responses s' = cn_pending_header_responses s
     \<and> total_size s' \<le> total_size s + Suc (body_size (pn_body p))
     \<and> (b \<longrightarrow> total_size s' < total_size s + Suc (body_size (pn_body p)))) (\<lambda>_ _. True) s"
proof (rule wp_schedule_one, goal_cases)
  case (3 w amt b' r)
  show ?case
  proof (cases r)
    case (Inl e)
    then show ?thesis by (auto simp: send_reset_def wp_simps intro!: wp_emit)
  next
    case (Inr x)
    with read_chunk_size [OF 3(5) [unfolded Inr]] show ?thesis
      by (cases x) (auto intro!: wp_weaken [OF send_data_size [where m = "body_size (pn_body p)"]])
  qed
qed auto

lemma schedule_rounds_size:
  "wp (schedule_rounds quota n p) (\<lambda>b s'. cn_pending_header_responses s' = cn_pending_header_responses s
     \<and> total_size s' \<le> total_size s \<and> (b \<longrightarrow> p \<or> total_size s' < total_size s)) (\<lambda>_ _. True) s"
proof (induction n arbitrary: p s)
  case (Suc n)
  show ?case
  proof (cases "cn_pending_responses s")
    case (Cons q rest)
    then have "total_size s = total_size (pop_pending s) + Suc (body_size (pn_body q))"
      "cn_pending_header_responses (pop_pending s) = cn_pending_header_responses s"
      by (simp_all add: total_size_def pop_pending_def)
    with Cons show ?thesis
      by (fastforce simp: wp_simps intro!: wp_weaken [OF schedule_one_size] wp_weaken [OF Suc.IH])
  qed (simp add: wp_simps)
qed (simp add: wp_simps)

lemma schedule_size:
  assumes "schedule_pending_responses s = (s', Inr b)"
  shows "cn_pending_header_responses s' = cn_pending_header_responses s
    \<and> (b \<longrightarrow> total_size s' < total_size s)"
proof -
  have "wp schedule_pending_responses (\<lambda>b s'. cn_pending_header_responses s' = cn_pending_header_responses s
    \<and> (b \<longrightarrow> total_size s' < total_size s)) (\<lambda>_ _. True) s"
    unfolding schedule_pending_responses_def Let_def
    by (auto simp: wp_simps total_size_def intro!: wp_weaken [OF schedule_rounds_size] wp_emit)
  then show ?thesis using assms by (simp add: wp_def)
qed

text \<open>What is left to read: the input and the buffered bytes, and the deferred frames.\<close>

definition input_left :: "('w, 'p, 'f) h2_conn \<Rightarrow> nat" where
  "input_left s = 2 * source_size (cn_in s) + length (cn_read_buffer s) + length (cn_deferred_frames s)"

lemma fill_to_input:
  assumes "fill_to chunk n s = (s', r)" "0 < chunk"
  shows "input_left s' \<le> input_left s \<and> (r = ReadTimedOut \<longrightarrow> input_left s' < input_left s)
    \<and> (r = Filled \<longrightarrow> n \<le> length (cn_read_buffer s')) \<and> cn_deferred_frames s' = cn_deferred_frames s"
  using assms
proof (induction chunk n s arbitrary: s' rule: fill_to.induct)
  case (1 chunk n s)
  consider (full) "length (cn_read_buffer s) \<ge> n"
    | (fault) k inp where "\<not> length (cn_read_buffer s) \<ge> n" "io_read (cn_in s) chunk = (Inl k, inp)"
    | (eof) inp where "\<not> length (cn_read_buffer s) \<ge> n" "io_read (cn_in s) chunk = (Inr [], inp)"
    | (more) bs inp where "\<not> length (cn_read_buffer s) \<ge> n" "io_read (cn_in s) chunk = (Inr bs, inp)" "bs \<noteq> []"
    by (metis sumE surj_pair)
  then show ?case
  proof cases
    case full
    with 1 show ?thesis by (simp add: fill_to.simps [of chunk n s])
  next
    case fault
    with 1 show ?thesis
      by (auto simp: fill_to.simps [of chunk n s] input_left_def dest: io_read_fault split: if_splits)
  next
    case eof
    with 1 show ?thesis
      by (auto simp: fill_to.simps [of chunk n s] input_left_def dest: io_read_takes)
  next
    case more
    let ?s = "s\<lparr>cn_in := inp, cn_read_buffer := cn_read_buffer s @ bs\<rparr>"
    have "fill_to chunk n ?s = (s', r)" using more 1(2,3) by (simp add: fill_to.simps [of chunk n s])
    from "1.IH" [OF _ more(2) [symmetric] refl more(3) this "1.prems"(2)] more(1) "1.prems"(2)
    have "input_left s' \<le> input_left ?s \<and> (r = ReadTimedOut \<longrightarrow> input_left s' < input_left ?s)
      \<and> (r = Filled \<longrightarrow> n \<le> length (cn_read_buffer s')) \<and> cn_deferred_frames s' = cn_deferred_frames ?s" by simp
    moreover have "input_left ?s \<le> input_left s"
      using io_read_takes [OF more(2)] by (simp add: input_left_def)
    ultimately show ?thesis by auto
  qed
qed

lemma input_left_view: "reader_view s' = reader_view s \<Longrightarrow> input_left s' = input_left s"
  by (simp add: reader_view_def input_left_def)

lemma run_frame_input: "run_frame be peer f s = (s', None) \<Longrightarrow> input_left s' = input_left s"
  using keeps_run [OF reader_process_frame refl]
  by (fastforce simp: run_frame_def goaway_break_def intro: input_left_view split: prod.splits sum.splits)

text \<open>A read that goes on either waits for more input or has processed a frame.\<close>

lemma read_frame_cases:
  assumes "read_frame be peer s = (s', None)"
  obtains (wait) "fill_to 4096 FRAME_HEADER_SIZE s = (s', ReadTimedOut)"
  | (wait_payload) s1 n where "fill_to 4096 FRAME_HEADER_SIZE s = (s1, Filled)" "fill_to 4096 n s1 = (s', ReadTimedOut)"
  | (frame) s1 h n s2 f where "fill_to 4096 FRAME_HEADER_SIZE s = (s1, Filled)"
      "header_parse (take FRAME_HEADER_SIZE (cn_read_buffer s1)) = Inr h" "n = FRAME_HEADER_SIZE + unat (fh_length h)"
      "fill_to 4096 n s1 = (s2, Filled)"
      "frame_parse h (drop FRAME_HEADER_SIZE (take n (cn_read_buffer s2))) = Inr f"
      "run_frame be peer f (s2\<lparr>cn_read_buffer := drop n (cn_read_buffer s2)\<rparr>) = (s', None)"
proof -
  obtain s1 r1 where f1: "fill_to 4096 FRAME_HEADER_SIZE s = (s1, r1)" by fastforce
  show ?thesis
  proof (cases "r1 = Filled")
    case False
    with assms f1 have "s1 = s'" "r1 = ReadTimedOut"
      by (auto simp: read_frame_def fill_end_def split: fill_result.splits)
    with f1 wait show ?thesis by simp
  next
    case True
    with assms f1 obtain h where h: "header_parse (take FRAME_HEADER_SIZE (cn_read_buffer s1)) = Inr h"
      "\<not> fh_length h > cn_max_frame_size s1"
      by (auto simp: read_frame_def goaway_return_def split: sum.splits prod.splits if_splits)
    let ?n = "FRAME_HEADER_SIZE + unat (fh_length h)"
    obtain s2 r2 where f2: "fill_to 4096 ?n s1 = (s2, r2)" by fastforce
    show ?thesis
    proof (cases "r2 = Filled")
      case False
      with assms f1 True h f2 have "s2 = s'" "r2 = ReadTimedOut"
        by (auto simp: read_frame_def fill_end_def split: fill_result.splits)
      with f1 True f2 wait_payload show ?thesis by simp
    next
      case filled: True
      obtain f where "frame_parse h (drop FRAME_HEADER_SIZE (take ?n (cn_read_buffer s2))) = Inr f"
        "run_frame be peer f (s2\<lparr>cn_read_buffer := drop ?n (cn_read_buffer s2)\<rparr>) = (s', None)"
        using assms f1 True h f2 filled
        by (auto simp: read_frame_def goaway_return_def Let_def split: sum.splits prod.splits)
      with f1 True h(1) f2 filled frame show ?thesis by simp
    qed
  qed
qed

lemma read_frame_input:
  assumes "read_frame be peer s = (s', None)"
  shows "input_left s' < input_left s"
  using assms
proof (cases rule: read_frame_cases)
  case wait
  with fill_to_input [OF wait] show ?thesis by simp
next
  case (wait_payload s1 n)
  with fill_to_input [OF wait_payload(1)] fill_to_input [OF wait_payload(2)] show ?thesis by simp
next
  case (frame s1 h n s2 f)
  with fill_to_input [OF frame(1)] fill_to_input [OF frame(4)] run_frame_input [OF frame(6)] show ?thesis
    by (auto simp: input_left_def FRAME_HEADER_SIZE_def)
qed

abbreviation turn_order :: "(('w, 'p, 'f) h2_conn \<times> ('w, 'p, 'f) h2_conn) set" where
  "turn_order \<equiv> measures [input_left, \<lambda>s. length (cn_pending_header_responses s), total_size]"

lemma serve_turn_progress:
  assumes "serve_turn be peer s = (s', None)"
  shows "(s', s) \<in> turn_order"
proof -
  obtain s1 r where q: "schedule_pending_responses s = (s1, r)" by fastforce
  with assms obtain b where r: "r = Inr b" by (cases r) (auto simp: serve_turn_def goaway_break_def)
  have v: "reader_view s1 = reader_view s" using keeps_run [OF reader_schedule refl q] .
  note c = schedule_size [OF q [unfolded r]] input_left_view [OF v]
  show ?thesis
  proof (cases b)
    case True
    with assms q r c show ?thesis by (simp add: serve_turn_def)
  next
    case False
    have "input_left s' < input_left s1"
    proof (cases "cn_deferred_frames s1")
      case Nil
      with assms q r False show ?thesis by (auto simp: serve_turn_def dest: read_frame_input)
    next
      case (Cons f fs)
      then have "run_frame be peer f (s1\<lparr>cn_deferred_frames := fs\<rparr>) = (s', None)"
        using assms q r False by (simp add: serve_turn_def)
      from run_frame_input [OF this] Cons show ?thesis by (simp add: input_left_def)
    qed
    with c show ?thesis by simp
  qed
qed

lemma main_turn_progress:
  assumes "main_turn be peer s = (s', None)"
  shows "(s', s) \<in> turn_order"
proof -
  obtain s1 r where p: "poll_pending_headers be s = (s1, r)" by fastforce
  with assms obtain b where r: "r = Inr b" by (cases r) (auto simp: main_turn_def goaway_break_def)
  have v: "reader_view s1 = reader_view s" using keeps_run [OF reader_poll_pending refl p] .
  note c = poll_pending_count [OF p [unfolded r]] input_left_view [OF v]
  show ?thesis
  proof (cases b)
    case True
    with assms p r c show ?thesis by (simp add: main_turn_def)
  next
    case False
    with assms p r have "(s', s1) \<in> turn_order"
      by (intro serve_turn_progress) (simp add: main_turn_def)
    with False c show ?thesis by auto
  qed
qed

text \<open>The loop of \<open>handle_connection\<close>. It ends: the input of a connection is finite.\<close>

function main_loop :: "('w, 'p, 'f) backend \<Rightarrow> socket_addr option \<Rightarrow> ('w, 'p, 'f) h2_conn \<Rightarrow>
    ('w, 'p, 'f) h2_conn \<times> conn_end" where
  "main_loop be peer s =
     (case main_turn be peer s of
        (s', Some e) \<Rightarrow> (s', e)
      | (s', None) \<Rightarrow> main_loop be peer s')"
  by pat_completeness auto
termination
  by (relation "inv_image turn_order (\<lambda>(be, peer, s). s)")
     (auto intro!: wf_inv_image intro: main_turn_progress [OF sym] simp del: in_measures)

declare main_loop.simps [simp del]

definition handle_connection :: "('w, 'p, 'f) backend \<Rightarrow> socket_addr option \<Rightarrow> bytes \<Rightarrow> ('w, 'p, 'f) h2_conn \<Rightarrow>
    ('w, 'p, 'f) h2_conn \<times> conn_end" where
  "handle_connection be peer initial_buffered s =
     (case fill_to 1024 (length CLIENT_PREFACE) (s\<lparr>cn_read_buffer := initial_buffered\<rparr>) of (s, r) \<Rightarrow>
      if r = PeerClosed then (s, EndOk)
      else if r \<noteq> Filled then (s, EndIoError)
      else if take (length CLIENT_PREFACE) (cn_read_buffer s) \<noteq> CLIENT_PREFACE then
        (case send_goaway 0 ProtocolError s of (s', ok) \<Rightarrow> (s', if ok then EndOk else EndIoError))
      else (case send_server_settings (s\<lparr>cn_read_buffer := drop (length CLIENT_PREFACE) (cn_read_buffer s)\<rparr>) of
              (s', ok) \<Rightarrow> if ok then main_loop be peer s' else (s', EndIoError)))"

end
