(* ===== verification/H2_Safety.thy ===== *)
theory H2_Safety
  imports H2_Connection
begin

text \<open>
  Invariants of the HTTP/2 connection driver. Every slot of the concurrency limit belongs to
  exactly one stream in progress: one whose request is being received, one waiting for upstream
  headers, or one whose body is being sent. Windows, stream identifiers, buffers and the HPACK
  table stay within their bounds. Both are shown for every frame, for polling and for the
  scheduler, and so for every state that the main loop reaches.
\<close>

section \<open>Ownership of slots\<close>

abbreviation sending_ids :: "('w, 'p, 'f) h2_conn \<Rightarrow> u32 set" where
  "sending_ids s \<equiv> pn_stream_id ` set (cn_pending_responses s)"

abbreviation awaiting_ids :: "('w, 'p, 'f) h2_conn \<Rightarrow> u32 set" where
  "awaiting_ids s \<equiv> ph_stream_id ` set (cn_pending_header_responses s)"

abbreviation active_ids :: "('w, 'p, 'f) h2_conn \<Rightarrow> u32 set" where
  "active_ids s \<equiv> fst ` set (cn_active_streams s)"

abbreviation tracked_ids :: "('w, 'p, 'f) h2_conn \<Rightarrow> u32 set" where
  "tracked_ids s \<equiv> fst ` set (cn_send_stream_windows s)"

text \<open>The slots are those of the receiving streams \<open>A\<close>, the sending and the awaiting streams.\<close>

definition slots :: "u32 set \<Rightarrow> ('w, 'p, 'f) h2_conn \<Rightarrow> bool" where
  "slots A s \<longleftrightarrow>
     tracked_ids s = A \<union> sending_ids s \<union> awaiting_ids s
     \<and> A \<inter> sending_ids s = {} \<and> A \<inter> awaiting_ids s = {} \<and> sending_ids s \<inter> awaiting_ids s = {}
     \<and> distinct (map pn_stream_id (cn_pending_responses s))
     \<and> distinct (map ph_stream_id (cn_pending_header_responses s))"

lemma slots_simps [simp]:
  "slots A (s\<lparr>cn_out := out\<rparr>) = slots A s"
  "slots A (s\<lparr>cn_world := w\<rparr>) = slots A s"
  "slots A (s\<lparr>cn_hpack_decoder := d\<rparr>) = slots A s"
  "slots A (s\<lparr>cn_last_stream_id := sid\<rparr>) = slots A s"
  "slots A (s\<lparr>cn_active_streams := as\<rparr>) = slots A s"
  "slots A (s\<lparr>cn_peer_connection_window := cw\<rparr>) = slots A s"
  "slots A (s\<lparr>cn_peer_max_frame_size := n\<rparr>) = slots A s"
  "slots A (s\<lparr>cn_peer_initial_stream_window_size := n\<rparr>) = slots A s"
  "slots A (s\<lparr>cn_pending_headers_stream_id := pid\<rparr>) = slots A s"
  "slots A (s\<lparr>cn_pending_header_block := bs\<rparr>) = slots A s"
  "slots A (s\<lparr>cn_closed_streams := cs\<rparr>) = slots A s"
  "slots A (put_active sid st s) = slots A s"
  "slots A (remove_active sid s) = slots A s"
  "slots A (mark_closed_stream sid s) = slots A s"
  by (simp_all add: slots_def put_active_def remove_active_def mark_closed_stream_def Let_def)

lemma slots_put_window: "sid \<in> tracked_ids s \<Longrightarrow> slots A (put_window sid w s) = slots A s"
  by (simp add: slots_def put_window_def keys_al_update insert_absorb)

text \<open>The ways a stream gives up or hands on its slot.\<close>

lemma slots_finish:
  assumes "slots (insert sid A) s" "sid \<notin> A"
  shows "slots A (finish_stream sid s)"
proof -
  have "slots A (remove_window sid s)" using assms by (auto simp: slots_def remove_window_def keys_al_delete)
  then show ?thesis by (simp add: finish_stream_def)
qed

lemma slots_push:
  "slots (insert (pn_stream_id p) A) s \<Longrightarrow> pn_stream_id p \<notin> A \<Longrightarrow> slots A (push_pending p s)"
  by (auto simp: slots_def push_pending_def)

lemma slots_poll_push:
  "slots (insert (ph_stream_id p) A) s \<Longrightarrow> ph_stream_id p \<notin> A \<Longrightarrow> slots A (poll_push p s)"
  by (auto simp: slots_def poll_push_def)

lemma slots_pop:
  assumes "slots A s" "cn_pending_responses s = p # ps"
  shows "slots (insert (pn_stream_id p) A) (pop_pending s)" "pn_stream_id p \<notin> A"
  using assms by (auto simp: slots_def pop_pending_def)

lemma slots_poll_pop:
  assumes "slots A s" "cn_pending_header_responses s = p # ps"
  shows "slots (insert (ph_stream_id p) A) (poll_pop s)" "ph_stream_id p \<notin> A"
  using assms by (auto simp: slots_def poll_pop_def)

section \<open>Bounds\<close>

definition stream_fits :: "server_config \<Rightarrow> u32 \<times> stream \<Rightarrow> bool" where
  "stream_fits cfg x \<longleftrightarrow>
     (case x of (sid, st) \<Rightarrow> st_id st = sid \<and> window_ok (st_send_window st)
        \<and> st_window st = window_new (sc_http2_initial_window_size cfg)
        \<and> length (st_request_body st) \<le> sc_max_request_size cfg)"

definition bounds_ok :: "('w, 'p, 'f) h2_conn \<Rightarrow> bool" where
  "bounds_ok s \<longleftrightarrow>
     distinct (map fst (cn_send_stream_windows s)) \<and> distinct (map fst (cn_active_streams s))
     \<and> length (cn_send_stream_windows s) \<le> cn_max_concurrent_streams s
     \<and> (\<forall>sid \<in> tracked_ids s. is_client_initiated sid \<and> sid \<le> cn_last_stream_id s)
     \<and> (\<forall>x \<in> set (cn_active_streams s). stream_fits (cn_config s) x)
     \<and> (\<forall>x \<in> set (cn_send_stream_windows s). window_ok (snd x))
     \<and> distinct (cn_closed_streams s) \<and> length (cn_closed_streams s) \<le> closed_limit s
     \<and> 16384 \<le> cn_peer_max_frame_size s \<and> cn_peer_max_frame_size s \<le> 16777215
     \<and> window_ok (cn_peer_connection_window s)
     \<and> cn_flow_control s = flow_control_new (sc_http2_initial_window_size (cn_config s))
     \<and> length (cn_pending_header_block s) \<le> sc_http2_max_header_block_size (cn_config s)
     \<and> decoder_ok (cn_hpack_decoder s)"

lemma closed_limit_simps [simp]:
  "closed_limit (s\<lparr>cn_closed_streams := cs\<rparr>) = closed_limit s"
  "closed_limit (s\<lparr>cn_send_stream_windows := ws\<rparr>) = closed_limit s"
  "closed_limit (s\<lparr>cn_active_streams := as\<rparr>) = closed_limit s"
  "closed_limit (s\<lparr>cn_out := out\<rparr>) = closed_limit s"
  "closed_limit (s\<lparr>cn_world := w\<rparr>) = closed_limit s"
  "closed_limit (s\<lparr>cn_hpack_decoder := d\<rparr>) = closed_limit s"
  "closed_limit (s\<lparr>cn_last_stream_id := sid\<rparr>) = closed_limit s"
  "closed_limit (s\<lparr>cn_peer_connection_window := cw\<rparr>) = closed_limit s"
  "closed_limit (s\<lparr>cn_peer_max_frame_size := n\<rparr>) = closed_limit s"
  "closed_limit (s\<lparr>cn_peer_initial_stream_window_size := n\<rparr>) = closed_limit s"
  "closed_limit (s\<lparr>cn_pending_headers_stream_id := pid\<rparr>) = closed_limit s"
  "closed_limit (s\<lparr>cn_pending_header_block := bs\<rparr>) = closed_limit s"
  "closed_limit (s\<lparr>cn_pending_responses := ps\<rparr>) = closed_limit s"
  "closed_limit (s\<lparr>cn_pending_header_responses := phs\<rparr>) = closed_limit s"
  "closed_limit (s\<lparr>cn_read_buffer := bs\<rparr>) = closed_limit s"
  "closed_limit (s\<lparr>cn_in := inp\<rparr>) = closed_limit s"
  "closed_limit (s\<lparr>cn_deferred_frames := fs\<rparr>) = closed_limit s"
  by (simp_all add: closed_limit_def)

lemma bounds_simps [simp]:
  "bounds_ok (s\<lparr>cn_out := out\<rparr>) = bounds_ok s"
  "bounds_ok (s\<lparr>cn_world := w\<rparr>) = bounds_ok s"
  "bounds_ok (s\<lparr>cn_pending_headers_stream_id := pid\<rparr>) = bounds_ok s"
  "bounds_ok (s\<lparr>cn_peer_initial_stream_window_size := n\<rparr>) = bounds_ok s"
  "bounds_ok (s\<lparr>cn_pending_responses := ps\<rparr>) = bounds_ok s"
  "bounds_ok (s\<lparr>cn_pending_header_responses := phs\<rparr>) = bounds_ok s"
  "bounds_ok (s\<lparr>cn_read_buffer := bs\<rparr>) = bounds_ok s"
  "bounds_ok (s\<lparr>cn_in := inp\<rparr>) = bounds_ok s"
  "bounds_ok (s\<lparr>cn_deferred_frames := fs\<rparr>) = bounds_ok s"
  "bounds_ok (push_pending p s) = bounds_ok s" "bounds_ok (pop_pending s) = bounds_ok s"
  "bounds_ok (poll_push ph s) = bounds_ok s" "bounds_ok (poll_pop s) = bounds_ok s"
  "bounds_ok (await_headers sid src req cfg s) = bounds_ok s"
  by (simp_all add: bounds_ok_def push_pending_def pop_pending_def poll_push_def poll_pop_def await_headers_def)

lemma bounds_mark_closed:
  assumes "bounds_ok s"
  shows "bounds_ok (mark_closed_stream sid s)"
proof (cases "sid \<in> set (cn_closed_streams s)")
  case False
  let ?cs = "cn_closed_streams s @ [sid]"
  have "distinct ?cs" using assms False by (simp add: bounds_ok_def)
  then have "distinct (drop (length ?cs - closed_limit s) ?cs)" by (rule distinct_drop)
  with assms False show ?thesis by (simp add: mark_closed_stream_def bounds_ok_def Let_def)
qed (use assms in \<open>simp add: mark_closed_stream_def\<close>)

lemma bounds_remove_window: "bounds_ok s \<Longrightarrow> bounds_ok (remove_window sid s)"
  using length_al_delete [of sid "cn_send_stream_windows s"]
  by (auto simp: bounds_ok_def remove_window_def keys_al_delete distinct_delete dest: set_al_delete)

lemma bounds_finish: "bounds_ok s \<Longrightarrow> bounds_ok (finish_stream sid s)"
  by (simp add: finish_stream_def bounds_mark_closed bounds_remove_window)

lemma bounds_remove_active: "bounds_ok s \<Longrightarrow> bounds_ok (remove_active sid s)"
  by (auto simp: bounds_ok_def remove_active_def distinct_delete dest: set_al_delete)

lemma bounds_put_active: "bounds_ok s \<Longrightarrow> stream_fits (cn_config s) (sid, st) \<Longrightarrow> bounds_ok (put_active sid st s)"
  by (auto simp: bounds_ok_def put_active_def distinct_update dest: set_al_update)

lemma bounds_put_window:
  "bounds_ok s \<Longrightarrow> sid \<in> tracked_ids s \<Longrightarrow> window_ok w \<Longrightarrow> bounds_ok (put_window sid w s)"
  by (auto simp: bounds_ok_def put_window_def distinct_update keys_al_update length_al_update_old dest: set_al_update)

section \<open>Answering a request\<close>

text \<open>The receiving streams are \<open>A\<close>, and the bounds hold.\<close>

definition owned :: "u32 set \<Rightarrow> ('w, 'p, 'f) h2_conn \<Rightarrow> bool" where
  "owned A s \<longleftrightarrow> bounds_ok s \<and> slots A s"

lemma owned_out [simp]: "owned A (s\<lparr>cn_out := out\<rparr>) = owned A s" "owned A (s\<lparr>cn_world := w\<rparr>) = owned A s"
  by (simp_all add: owned_def)

lemma owned_finish: "owned (insert sid A) s \<Longrightarrow> sid \<notin> A \<Longrightarrow> owned A (finish_stream sid s)"
  by (simp add: owned_def bounds_finish slots_finish)

lemma owned_push: "owned (insert (pn_stream_id p) A) s \<Longrightarrow> pn_stream_id p \<notin> A \<Longrightarrow> owned A (push_pending p s)"
  by (simp add: owned_def slots_push)

lemma owned_poll_push: "owned (insert (ph_stream_id p) A) s \<Longrightarrow> ph_stream_id p \<notin> A \<Longrightarrow> owned A (poll_push p s)"
  by (simp add: owned_def slots_poll_push)

lemma owned_await: "owned (insert sid A) s \<Longrightarrow> sid \<notin> A \<Longrightarrow> owned A (await_headers sid src req cfg s)"
  using owned_poll_push [of "\<lparr>ph_stream_id = sid, ph_source = src,
      ph_compress = accepts_gzip (get_header req ''Accept-Encoding''), ph_compression_level = sc_compression_level cfg\<rparr>" A s]
  by (simp add: await_headers_def poll_push_def)

lemma wp_emits:
  assumes "\<And>out. Q () (s\<lparr>cn_out := out\<rparr>)" "\<And>e s'. E e s'"
  shows "wp (for_each emit fs) Q E s"
proof -
  have "wp (for_each emit fs) (\<lambda>_ s'. \<exists>out. s' = s\<lparr>cn_out := out\<rparr>) E s"
  proof -
    have "keeps (\<lambda>s'. \<exists>out. s' = s\<lparr>cn_out := out\<rparr>) (for_each emit fs)"
      by (intro keeps_for_each)
         (auto simp: keeps_def emit_def write_out_def split: prod.splits)
    then have "wp (for_each emit fs) (\<lambda>_ s'. \<exists>out. s' = s\<lparr>cn_out := out\<rparr>) (\<lambda>_ s'. \<exists>out. s' = s\<lparr>cn_out := out\<rparr>) s"
      by (rule keepsD) (auto intro: exI [of _ "cn_out s"])
    then show ?thesis by (rule wp_weaken) (use assms in auto)
  qed
  then show ?thesis by (rule wp_weaken) (use assms in auto)
qed

lemma owned_queue:
  assumes "owned (insert sid A) s" "sid \<notin> A"
  shows "wp (queue_h2_stream_response be sid resp b) (\<lambda>_. owned A) (\<lambda>_ _. True) s"
  unfolding queue_h2_stream_response_def Let_def wp_then_do wp_with_state
  using assms owned_push [of "\<lparr>pn_stream_id = sid, pn_body = _\<rparr>" A]
  by (auto simp: wp_simps owned_finish push_pending_def intro!: wp_emits wp_emit split: sum.splits)

lemma owned_try:
  assumes "owned (insert sid A) s" "sid \<notin> A"
  shows "wp (try_proxy be sid req cfg a) (\<lambda>b. owned (if b then A else insert sid A)) (\<lambda>_ _. True) s"
    and "wp (try_fastcgi be sid req cfg a) (\<lambda>b. owned (if b then A else insert sid A)) (\<lambda>_ _. True) s"
  unfolding try_proxy_def try_fastcgi_def queue_h2_response_def
  using assms
  by (auto simp: wp_simps owned_await split: prod.splits sum.splits option.splits intro!: owned_queue)

lemma owned_dispatch:
  assumes "owned (insert (st_id st) A) s" "st_id st \<notin> A"
  shows "wp (dispatch_h2_request be st peer) (\<lambda>_. owned A) (\<lambda>_ _. True) s"
  unfolding dispatch_h2_request_def handle_static_def queue_h2_response_def Let_def
  using assms(1)
  by (auto simp: wp_simps split: sum.splits prod.splits
      intro!: wp_weaken [OF owned_try(1) [OF _ assms(2)]] wp_weaken [OF owned_try(2) [OF _ assms(2)]]
        owned_queue assms(2))

section \<open>Every frame keeps the invariant\<close>

definition conn_inv :: "('w, 'p, 'f) h2_conn \<Rightarrow> bool" where
  "conn_inv s \<longleftrightarrow> owned (active_ids s) s"

lemma active_updates [simp]:
  "cn_active_streams (finish_stream sid s) = cn_active_streams s"
  "cn_active_streams (mark_closed_stream sid s) = cn_active_streams s"
  "cn_active_streams (push_pending p s) = cn_active_streams s"
  "cn_active_streams (pop_pending s) = cn_active_streams s"
  "cn_active_streams (poll_push ph s) = cn_active_streams s"
  "cn_active_streams (poll_pop s) = cn_active_streams s"
  "cn_active_streams (put_window sid w s) = cn_active_streams s"
  "cn_active_streams (await_headers sid src req cfg s) = cn_active_streams s"
  by (simp_all add: finish_stream_def mark_closed_stream_def remove_window_def push_pending_def pop_pending_def
      poll_push_def poll_pop_def put_window_def await_headers_def Let_def)

lemma active_remove: "active_ids (remove_active sid s) = active_ids s - {sid}"
  by (simp add: remove_active_def keys_al_delete)

lemma active_poll_source [intro, simp]: "keeps (\<lambda>s. cn_active_streams s = c) (poll_source be src)"
  by (auto simp: keeps_def poll_source_def split: prod.splits pending_header_source.splits)

lemma active_queue [intro, simp]: "keeps (\<lambda>s. cn_active_streams s = c) (queue_h2_stream_response be sid resp b)"
  unfolding queue_h2_stream_response_def Let_def
  by (auto intro!: keeps_intros keeps_out split: option.splits)

lemma active_dispatch [intro, simp]: "keeps (\<lambda>s. cn_active_streams s = c) (dispatch_h2_request be st peer)"
  unfolding dispatch_h2_request_def try_proxy_def try_fastcgi_def handle_static_def queue_h2_response_def Let_def
  by (auto intro!: keeps_intros split: prod.splits sum.splits option.splits)

text \<open>Dispatching a stream that is no longer receiving hands its slot on.\<close>

lemma dispatch_inv:
  assumes "owned (insert (st_id st) (active_ids s)) s" "st_id st \<notin> active_ids s"
  shows "wp (dispatch_h2_request be st peer) (\<lambda>_. conn_inv) (\<lambda>_ _. True) s"
proof -
  have "wp (dispatch_h2_request be st peer) (\<lambda>_ s'. owned (active_ids s) s' \<and> cn_active_streams s' = cn_active_streams s)
      (\<lambda>_ s'. True \<and> cn_active_streams s' = cn_active_streams s) s"
    by (intro wp_conj owned_dispatch [OF assms] keepsD [OF active_dispatch]) simp
  then show ?thesis by (rule wp_weaken) (auto simp: conn_inv_def)
qed

lemma dispatch_active_inv:
  assumes "conn_inv s" "st_id st = sid" "sid \<in> active_ids s"
  shows "wp (then_do (dispatch_h2_request be st peer) (update_state (remove_active sid))) (\<lambda>_. conn_inv) (\<lambda>_ _. True) s"
proof -
  let ?A = "active_ids s - {sid}"
  have o: "owned (insert (st_id st) ?A) s" "st_id st \<notin> ?A"
    using assms by (auto simp: conn_inv_def insert_absorb)
  have "wp (dispatch_h2_request be st peer) (\<lambda>_ s'. owned ?A s' \<and> cn_active_streams s' = cn_active_streams s)
      (\<lambda>_ s'. True \<and> cn_active_streams s' = cn_active_streams s) s"
    by (intro wp_conj owned_dispatch [OF o] keepsD [OF active_dispatch]) simp
  then show ?thesis
    unfolding wp_then_do wp_update_state
    by (rule wp_weaken) (auto simp: conn_inv_def owned_def bounds_remove_active active_remove)
qed

lemma append_headers_fields [simp]:
  "st_id (append_request_headers st hs eh) = st_id st"
  "st_send_window (append_request_headers st hs eh) = st_send_window st"
  "st_window (append_request_headers st hs eh) = st_window st"
  "st_request_body (append_request_headers st hs eh) = st_request_body st"
  by (simp_all add: append_request_headers_def Let_def)

lemma end_remote_fields [simp]:
  "st_id (end_remote st) = st_id st"
  "st_send_window (end_remote st) = st_send_window st"
  "st_window (end_remote st) = st_window st"
  "st_request_body (end_remote st) = st_request_body st"
  by (simp_all add: end_remote_def transition_to_def split: option.splits)

lemma conn_inv_put_active:
  assumes "conn_inv s" "sid \<in> active_ids s" "stream_fits (cn_config s) (sid, st)"
  shows "conn_inv (put_active sid st s)" "active_ids (put_active sid st s) = active_ids s"
proof -
  show keys: "active_ids (put_active sid st s) = active_ids s"
    using assms(2) by (simp add: put_active_def keys_al_update insert_absorb)
  show "conn_inv (put_active sid st s)"
    using assms unfolding conn_inv_def keys by (simp add: owned_def bounds_put_active)
qed

lemma conn_inv_fits: "conn_inv s \<Longrightarrow> map_of (cn_active_streams s) sid = Some st \<Longrightarrow> stream_fits (cn_config s) (sid, st)"
  by (auto simp: conn_inv_def owned_def bounds_ok_def dest: map_of_SomeD)

lemma conn_inv_each:
  "conn_inv s \<Longrightarrow> x \<in> set (cn_active_streams s) \<Longrightarrow> stream_fits (cn_config s) x"
  "conn_inv s \<Longrightarrow> y \<in> set (cn_send_stream_windows s) \<Longrightarrow> window_ok (snd y)"
  unfolding conn_inv_def owned_def bounds_ok_def by simp_all

lemma oksI: "(\<And>s s' a. I s \<Longrightarrow> m s = (s', Inr a) \<Longrightarrow> I s') \<Longrightarrow> oks I m"
  by (auto simp: oks_def wp_def split: prod.splits sum.splits)

lemma finish_headers_inv: "oks conn_inv (finish_headers be peer sid hs)"
  unfolding finish_headers_def oks_def wp_with_state
proof (intro allI impI, goal_cases)
  case (1 s)
  show ?case
  proof (cases "map_of (cn_active_streams s) sid")
    case (Some st)
    then have k: "sid \<in> active_ids s" and f: "stream_fits (cn_config s) (sid, st)"
      using conn_inv_fits [OF 1] by (force dest: map_of_SomeD)+
    let ?st = "append_request_headers st hs True"
    have p: "conn_inv (put_active sid (end_remote ?st) s)" "conn_inv (put_active sid ?st s)"
      "sid \<in> active_ids (put_active sid (end_remote ?st) s)"
      using conn_inv_put_active [OF 1 k] f k by (auto simp: stream_fits_def)
    with f dispatch_active_inv [OF p(1) _ p(3), of "end_remote ?st" be peer] Some show ?thesis
      by (auto simp: wp_update_state wp_then_do [of "update_state _"] Let_def stream_fits_def)
  qed (use 1 in \<open>simp add: wp_simps\<close>)
qed

lemma decode_block_inv: "oks conn_inv (decode_block bs)"
proof -
  have "conn_inv (s\<lparr>cn_hpack_decoder := d\<rparr>)" if "conn_inv s" "decoder_ok d" for s :: "('a, 'b, 'c) h2_conn" and d
    using that by (simp add: conn_inv_def owned_def bounds_ok_def)
  moreover have "decoder_ok (cn_hpack_decoder s)" if "conn_inv s" for s :: "('a, 'b, 'c) h2_conn"
    using that by (simp add: conn_inv_def owned_def bounds_ok_def)
  ultimately show ?thesis
    unfolding oks_def wp_def decode_block_def
    by (fastforce split: prod.splits sum.splits dest: decode_header_block_ok)
qed

lemma not_tracked: "conn_inv s \<Longrightarrow> cn_last_stream_id s < sid \<Longrightarrow> sid \<notin> tracked_ids s"
  unfolding conn_inv_def owned_def bounds_ok_def by (meson leD)

text \<open>A new stream takes a free slot.\<close>

lemma open_stream_inv:
  assumes inv: "conn_inv s" and new: "cn_last_stream_id s < sid" "is_client_initiated sid" and acc: "can_accept_new_stream s"
  shows "wp (open_stream sid es) (\<lambda>_ s'. conn_inv s' \<and> cn_config s' = cn_config s) (\<lambda>_ _. True) (s\<lparr>cn_last_stream_id := sid\<rparr>)"
proof -
  let ?w = "window_new (cn_peer_initial_stream_window_size s)"
  let ?s = "put_window sid ?w (s\<lparr>cn_last_stream_id := sid\<rparr>)"
  have fresh: "sid \<notin> tracked_ids s" by (rule not_tracked [OF inv new(1)])
  have b: "bounds_ok ?s"
    using inv fresh new acc length_al_update_new [OF fresh, of ?w]
    by (auto simp: conn_inv_def owned_def bounds_ok_def put_window_def keys_al_update distinct_update
        can_accept_new_stream_def tracked_stream_count_def dest: set_al_update intro: order_trans less_imp_le)
  have sl: "slots (insert sid (active_ids s)) ?s"
    using inv fresh by (auto simp: conn_inv_def owned_def slots_def put_window_def keys_al_update)
  have fits: "stream_fits (cn_config s) (sid, st\<lparr>st_received_end_stream := es\<rparr>)"
    if "stream_new sid (fc_initial_stream_window_size (cn_flow_control s)) = Inr st0"
      "transition_to (st0\<lparr>st_send_window := ?w\<rparr>) Open = Inr st" for st0 st
    using that inv
    by (auto simp: stream_fits_def stream_new_def transition_to_def conn_inv_def owned_def bounds_ok_def flow_control_new_def
        split: if_splits option.splits)
  have "conn_inv (put_active sid st ?s)" if "stream_fits (cn_config s) (sid, st)" for st
    using bounds_put_active [OF b, of sid st] sl that
    by (simp add: conn_inv_def owned_def put_window_def put_active_def [of sid st] keys_al_update)
  with fits show ?thesis
    by (auto simp: open_stream_def wp_simps Let_def put_window_def put_active_def split: sum.splits)
qed

lemma conn_inv_mark_closed: "conn_inv s \<Longrightarrow> conn_inv (mark_closed_stream sid s)"
  by (simp add: conn_inv_def owned_def bounds_mark_closed)

lemma conn_inv_simps [simp]:
  "conn_inv (s\<lparr>cn_out := out\<rparr>) = conn_inv s"
  "conn_inv (s\<lparr>cn_pending_headers_stream_id := pid\<rparr>) = conn_inv s"
  "conn_inv (s\<lparr>cn_peer_initial_stream_window_size := n\<rparr>) = conn_inv s"
  "conn_inv (s\<lparr>cn_read_buffer := bs\<rparr>) = conn_inv s"
  "conn_inv (s\<lparr>cn_in := inp\<rparr>) = conn_inv s"
  "conn_inv (s\<lparr>cn_deferred_frames := fs\<rparr>) = conn_inv s"
  by (simp_all add: conn_inv_def owned_def slots_def)

lemma conn_inv_block:
  "conn_inv s \<Longrightarrow> length bs \<le> sc_http2_max_header_block_size (cn_config s) \<Longrightarrow> conn_inv (s\<lparr>cn_pending_header_block := bs\<rparr>)"
  by (simp add: conn_inv_def owned_def bounds_ok_def)

lemma conn_inv_last: "conn_inv s \<Longrightarrow> cn_last_stream_id s < sid \<Longrightarrow> conn_inv (s\<lparr>cn_last_stream_id := sid\<rparr>)"
  by (auto simp: conn_inv_def owned_def bounds_ok_def intro: order_trans less_imp_le)

lemma complete_block_inv: "oks conn_inv (and_then (decode_block bs) (finish_headers be peer sid))"
  by (intro oks_and_then decode_block_inv finish_headers_inv)

lemma on_headers_inv: "oks conn_inv (on_headers be peer sid block es eh)"
  unfolding on_headers_def oks_def wp_with_state
proof (intro allI impI, goal_cases)
  case (1 s)
  show ?case
  proof (cases "is_client_initiated sid \<and> cn_last_stream_id s < sid")
    case new: True
    show ?thesis
    proof (cases "can_accept_new_stream s")
      case True
      have "wp (open_stream sid es) (\<lambda>_. wp (if eh then and_then (decode_block block) (finish_headers be peer sid)
           else if length block > sc_http2_max_header_block_size (cn_config s) then fail EnhanceYourCalm
           else update_state (\<lambda>s. s\<lparr>cn_pending_headers_stream_id := Some sid, cn_pending_header_block := block\<rparr>))
         (\<lambda>_. conn_inv) (\<lambda>_ _. True)) (\<lambda>_ _. True) (s\<lparr>cn_last_stream_id := sid\<rparr>)"
        using new oksD [OF complete_block_inv]
        by (intro wp_weaken [OF open_stream_inv [OF 1 _ _ True]]) (auto simp: wp_simps(1-2,5-9) intro!: conn_inv_block)
      with new True show ?thesis by (simp add: wp_simps(1-2,4-9) not_le)
    next
      case False
      with new 1 show ?thesis
        by (auto simp: wp_simps not_le intro!: wp_emit conn_inv_mark_closed conn_inv_last)
    qed
  qed (auto simp: wp_simps not_less is_client_initiated_def)
qed

lemma on_continuation_inv: "oks conn_inv (on_continuation be peer sid block eh)"
  unfolding on_continuation_def oks_def wp_with_state Let_def
proof (intro allI impI, goal_cases)
  case (1 s)
  have fin: "oks conn_inv (then_do (update_state (\<lambda>s. s\<lparr>cn_pending_header_block := []\<rparr>)) (finish_headers be peer sid hs))" for hs
    by (intro oks_then_do oks_update_state finish_headers_inv) (simp add: conn_inv_block)
  let ?whole = "cn_pending_header_block s @ block"
  have "oks conn_inv (then_do (update_state (\<lambda>s. s\<lparr>cn_pending_headers_stream_id := None\<rparr>))
      (and_then (decode_block ?whole) (\<lambda>hs. then_do (update_state (\<lambda>s. s\<lparr>cn_pending_header_block := []\<rparr>)) (finish_headers be peer sid hs))))"
    by (intro oks_then_do oks_and_then oks_update_state decode_block_inv fin) simp_all
  from oksD [OF this] show ?case
    using conn_inv_block [OF 1, of ?whole]
    by (auto simp: wp_fail wp_if wp_when_do wp_then_do [of "update_state _" "when_do _ _"] wp_update_state)
qed

lemma adjust_values_ok:
  "adjust_values f xs = (ys, Inr ()) \<Longrightarrow>
   map fst ys = map fst xs \<and> (\<forall>y \<in> set ys. \<exists>v. (fst y, v) \<in> set xs \<and> f v = Inr (snd y))"
proof (induction xs arbitrary: ys)
  case (Cons x xs)
  then show ?case by (cases x) (fastforce split: sum.splits prod.splits)
qed auto

lemma adjust_active_inv: "oks conn_inv (adjust_active d)"
proof -
  have "conn_inv (s\<lparr>cn_active_streams := ys\<rparr>)"
    if inv: "conn_inv s" and a: "adjust_values (adjust_stream d) (cn_active_streams s) = (ys, Inr ())" for s :: "('a, 'b, 'c) h2_conn" and ys
  proof -
    note k = adjust_values_ok [OF a]
    have "stream_fits (cn_config s) y" if y: "y \<in> set ys" for y
    proof -
      obtain v where v: "(fst y, v) \<in> set (cn_active_streams s)" "adjust_stream d v = Inr (snd y)"
        using bspec [OF conjunct2 [OF k] y] by auto
      then obtain w where w: "window_adjust (st_send_window v) d = Inr w" "snd y = v\<lparr>st_send_window := w\<rparr>"
        by (auto simp: adjust_stream_def split: sum.splits)
      have "stream_fits (cn_config s) (fst y, v)" by (rule conn_inv_each(1) [OF inv v(1)])
      with w win.shift_sound [OF _ w(1)] show ?thesis
        by (cases y) (simp add: stream_fits_def)
    qed
    moreover have "fst ` set ys = active_ids s" using arg_cong [OF conjunct1 [OF k], of set] by simp
    ultimately show ?thesis
      using inv conjunct1 [OF k] unfolding conn_inv_def owned_def bounds_ok_def by simp
  qed
  then show ?thesis
    by (intro oksI) (simp add: adjust_active_def split: prod.splits, blast)
qed

lemma adjust_send_windows_inv: "oks conn_inv (adjust_send_windows d)"
proof -
  have "conn_inv (s\<lparr>cn_send_stream_windows := ys\<rparr>)"
    if inv: "conn_inv s" and a: "adjust_values (\<lambda>w. window_adjust w d) (cn_send_stream_windows s) = (ys, Inr ())"
    for s :: "('a, 'b, 'c) h2_conn" and ys
  proof -
    note k = adjust_values_ok [OF a]
    have "window_ok (snd y)" if y: "y \<in> set ys" for y
    proof -
      obtain v where v: "(fst y, v) \<in> set (cn_send_stream_windows s)" "window_adjust v d = Inr (snd y)"
        using bspec [OF conjunct2 [OF k] y] by auto
      have "window_ok v" using conn_inv_each(2) [OF inv v(1)] by simp
      with win.shift_sound [OF _ v(2)] show ?thesis by blast
    qed
    moreover have keys: "fst ` set ys = tracked_ids s" "length ys = length (cn_send_stream_windows s)"
      using arg_cong [OF conjunct1 [OF k], of set] arg_cong [OF conjunct1 [OF k], of length] by simp_all
    ultimately have "bounds_ok (s\<lparr>cn_send_stream_windows := ys\<rparr>)"
      using inv conjunct1 [OF k] unfolding conn_inv_def owned_def bounds_ok_def by (simp del: ball_simps)
    moreover have "slots (active_ids s) (s\<lparr>cn_send_stream_windows := ys\<rparr>)"
      using inv keys(1) by (simp add: conn_inv_def owned_def slots_def)
    ultimately show ?thesis by (simp add: conn_inv_def owned_def)
  qed
  then show ?thesis
    by (intro oksI) (simp add: adjust_send_windows_def split: prod.splits, blast)
qed

lemma emit_inv: "oks conn_inv (emit f)" "oks conn_inv flush_out" "oks conn_inv (emit_ignoring f)"
  by (rule keeps_oks, rule keeps_out, simp)+

lemma apply_setting_inv: "oks conn_inv (apply_setting sv)"
proof -
  have "conn_inv (s\<lparr>cn_peer_max_frame_size := n\<rparr>)" if "conn_inv s" "16384 \<le> n" "n \<le> 16777215"
    for s :: "('a, 'b, 'c) h2_conn" and n
    using that by (simp add: conn_inv_def owned_def bounds_ok_def)
  then show ?thesis
    unfolding apply_setting_def Let_def
    by (auto simp: not_less split: prod.splits
        intro!: oks_if oks_update_state oks_with oks_then_do adjust_active_inv adjust_send_windows_inv)
qed

lemma on_settings_inv: "oks conn_inv (on_settings settings ack)" "oks conn_inv (on_ping opaque ack)"
  unfolding on_settings_def on_ping_def
  by (intro oks_intros apply_setting_inv emit_inv oks_ret)+

text \<open>Received data leaves both receive windows as they were.\<close>

lemma spend_and_refill:
  assumes "window_ok w" "window_consume w n = Inr w1" "window_update w1 n = Inr w2"
  shows "w2 = w"
proof -
  from win.spend_sound [OF assms(1,2)] have w1: "window_ok w1" "available w1 = available w - uint n" by auto
  from win.grant_sound [OF w1(1) assms(3)] w1(2) show ?thesis by simp
qed

lemma receive_credit_same:
  assumes "window_ok (fc_connection_window (cn_flow_control s))" "window_ok (st_window st)"
  shows "wp (receive_credit sid st n) (\<lambda>st' s'. st' = st \<and> (\<exists>out. s' = s\<lparr>cn_out := out\<rparr>)) (\<lambda>_ _. True) s"
proof -
  have conn: "set_connection_window cw' (set_connection_window cw s) = s"
    if "window_consume (fc_connection_window (cn_flow_control s)) n = Inr cw" "window_update cw n = Inr cw'" for cw cw'
    using spend_and_refill [OF assms(1) that] by (simp add: set_connection_window_def)
  have strm: "st\<lparr>st_window := sw'\<rparr> = st"
    if "window_consume (st_window st) n = Inr sw" "window_update sw n = Inr sw'" for sw sw'
    using spend_and_refill [OF assms(2) that] by simp
  show ?thesis
    unfolding receive_credit_def
    by (auto simp: wp_simps conn strm split: sum.splits intro!: wp_emit)
qed

lemma on_data_inv: "oks conn_inv (on_data be peer sid d es)"
  unfolding on_data_def oks_def wp_with_state
proof (intro allI impI, goal_cases)
  case (1 s)
  show ?case
  proof (cases "map_of (cn_active_streams s) sid")
    case (Some st)
    have k: "sid \<in> active_ids s" using Some by (force dest: map_of_SomeD)
    have f: "stream_fits (cn_config s) (sid, st)" by (rule conn_inv_fits [OF 1 Some])
    let ?s = "remove_active sid s"
    have o: "owned (insert sid (active_ids ?s)) ?s" "sid \<notin> active_ids ?s"
      using 1 k by (auto simp: conn_inv_def owned_def bounds_remove_active active_remove insert_absorb)
    have cw: "cn_config ?s = cn_config s" "window_ok (fc_connection_window (cn_flow_control ?s))"
      using 1 by (simp_all add: remove_active_def conn_inv_def owned_def bounds_ok_def flow_control_new_def)
    have last: "wp (if length d > sc_max_request_size (cn_config s) - length (st_request_body st) then fail EnhanceYourCalm
        else and_then (of_result (append_request_data st d es)) (\<lambda>st.
          if es then dispatch_h2_request be st peer else update_state (put_active sid st)))
        (\<lambda>_. conn_inv) (\<lambda>_ _. True) (?s\<lparr>cn_out := out\<rparr>)" for out
    proof -
      obtain st' where st': "append_request_data st d es = Inr st'" "st_request_body st' = st_request_body st @ d"
        "st_id st' = st_id st" "st_window st' = st_window st" "st_send_window st' = st_send_window st"
        using append_request_data_Inr [of st d es] by auto
      have "wp (dispatch_h2_request be st' peer) (\<lambda>_. conn_inv) (\<lambda>_ _. True) (?s\<lparr>cn_out := out\<rparr>)"
        using o f st'(3) by (intro dispatch_inv) (auto simp: stream_fits_def)
      moreover have "conn_inv (put_active sid st' (?s\<lparr>cn_out := out\<rparr>))"
        if "length d \<le> sc_max_request_size (cn_config s) - length (st_request_body st)"
      proof -
        have "stream_fits (cn_config s) (sid, st')" using f st' that by (auto simp: stream_fits_def)
        with o(1) cw(1) show ?thesis
          unfolding conn_inv_def owned_def
          by (simp add: bounds_put_active) (simp add: put_active_def keys_al_update)
      qed
      ultimately show ?thesis using st'(1) by (auto simp: wp_simps)
    qed
    have "wp (if of_nat (length d) > (0 :: u32) then receive_credit sid st (of_nat (length d)) else ret st)
        (\<lambda>st' s'. st' = st \<and> (\<exists>out. s' = ?s\<lparr>cn_out := out\<rparr>)) (\<lambda>_ _. True) ?s"
      using receive_credit_same [OF cw(2), of st] f
      by (auto simp: wp_simps stream_fits_def intro: exI [of _ "cn_out ?s"])
    then show ?thesis
      unfolding Some option.case Let_def wp_then_do wp_update_state wp_and_then [of "If _ _ _"]
      by (rule wp_weaken) (use last in auto)
  qed (simp add: wp_simps)
qed

lemma conn_inv_put_window:
  "conn_inv s \<Longrightarrow> sid \<in> tracked_ids s \<Longrightarrow> window_ok w \<Longrightarrow> conn_inv (put_window sid w s)"
  by (simp add: conn_inv_def owned_def bounds_put_window slots_put_window)

lemma tracked_active: "conn_inv s \<Longrightarrow> sid \<in> active_ids s \<Longrightarrow> sid \<in> tracked_ids s"
  by (auto simp: conn_inv_def owned_def slots_def)

lemma on_window_update_inv: "oks conn_inv (on_window_update sid n)"
  unfolding on_window_update_def oks_def wp_with_state
proof (intro allI impI, goal_cases)
  case (1 s)
  have g: "window_ok w \<Longrightarrow> window_update w n = Inr w' \<Longrightarrow> window_ok w'" for w w'
    using win.grant_sound by blast
  have c: "window_ok (cn_peer_connection_window s)" using 1 by (simp add: conn_inv_def owned_def bounds_ok_def)
  have c': "conn_inv (s\<lparr>cn_peer_connection_window := w\<rparr>)" if "window_ok w" for w
    using 1 that by (simp add: conn_inv_def owned_def bounds_ok_def)
  have win: "window_ok v" "sid \<in> tracked_ids s" if "map_of (cn_send_stream_windows s) sid = Some v" for v
    using conn_inv_each(2) [OF 1 map_of_SomeD [OF that]] map_of_SomeD [OF that] by force+
  show ?case
  proof (cases "sid \<noteq> 0 \<and> sid \<in> active_ids s")
    case True
    then obtain st where st: "map_of (cn_active_streams s) sid = Some st"
      by (metis has_key_def has_key_iff not_None_eq)
    have t: "sid \<in> tracked_ids s" using tracked_active [OF 1] True by blast
    then obtain v where v: "map_of (cn_send_stream_windows s) sid = Some v"
      by (metis has_key_def has_key_iff not_None_eq)
    have f: "stream_fits (cn_config s) (sid, st)" by (rule conn_inv_fits [OF 1 st])
    have p: "conn_inv (put_active sid (st\<lparr>st_send_window := w\<rparr>) s)"
      "sid \<in> tracked_ids (put_active sid (st\<lparr>st_send_window := w\<rparr>) s)" if "window_ok w" for w
      using conn_inv_put_active(1) [OF 1, of sid "st\<lparr>st_send_window := w\<rparr>"] f that True t
      by (auto simp: stream_fits_def put_active_def)
    have q: "conn_inv (put_window sid v' (put_window sid v (put_active sid (st\<lparr>st_send_window := w\<rparr>) s)))"
      if "window_ok w" "window_ok v'" for w v'
      using p [OF that(1)] win(1) [OF v] that(2)
      by (intro conn_inv_put_window) (auto simp: put_window_def keys_al_update)
    have "window_ok (st_send_window st)" using f by (simp add: stream_fits_def)
    from g [OF this] g [OF win(1) [OF v]] q st v True show ?thesis
      by (auto simp: wp_simps Let_def split: sum.splits)
  next
    case False
    then have none: "sid = 0 \<or> map_of (cn_active_streams s) sid = None"
      by (metis has_key_def has_key_iff)
    show ?thesis
    proof (cases "sid = 0")
      case True
      with g [OF c] c' show ?thesis by (auto simp: wp_simps split: sum.splits)
    next
      case sid: False
      with none 1 g [OF win(1)] conn_inv_put_window [OF 1 win(2)] show ?thesis
        by (auto simp: wp_simps split: sum.splits option.splits)
    qed
  qed
qed

lemma on_rst_stream_inv: "oks conn_inv (on_rst_stream sid)"
proof -
  have "conn_inv (mark_closed_stream sid ((remove_window sid (remove_active sid s))
        \<lparr>cn_pending_responses := filter (\<lambda>p. pn_stream_id p \<noteq> sid) (cn_pending_responses s),
         cn_pending_header_responses := filter (\<lambda>p. ph_stream_id p \<noteq> sid) (cn_pending_header_responses s)\<rparr>))"
    (is "conn_inv (mark_closed_stream sid ?s)") if "conn_inv s" for s :: "('a, 'b, 'c) h2_conn"
  proof -
    have "bounds_ok ?s"
      using that by (simp add: conn_inv_def owned_def bounds_remove_window bounds_remove_active)
    moreover have "slots (active_ids ?s) ?s"
      using that unfolding conn_inv_def owned_def slots_def
      by (auto simp: remove_window_def remove_active_def keys_al_delete distinct_map_filter)
    ultimately show ?thesis by (intro conn_inv_mark_closed) (simp add: conn_inv_def owned_def)
  qed
  then show ?thesis unfolding on_rst_stream_def by (intro oks_update_state)
qed

lemma process_frame_inv: "oks conn_inv (process_frame be peer f)"
  unfolding process_frame_def Let_def
  by (auto split: frame_payload.splits
      intro!: oks_with oks_if on_settings_inv on_headers_inv on_continuation_inv on_data_inv
        on_window_update_inv on_rst_stream_inv)

section \<open>Polling and scheduling keep the invariant\<close>

lemma poll_one_owned:
  assumes "owned (insert (ph_stream_id pend) A) s" "ph_stream_id pend \<notin> A"
  shows "wp (poll_one be pend) (\<lambda>_. owned A) (\<lambda>_ _. True) s"
  unfolding poll_one_def headers_ready_def wp_and_then
  using assms
  by (intro wp_poll_source)
     (auto simp: wp_simps owned_finish split: prod.splits sum.splits option.splits
       intro!: wp_emit owned_queue owned_poll_push)

lemma poll_one_active: "keeps (\<lambda>s. cn_active_streams s = c) (poll_one be pend)"
  unfolding poll_one_def headers_ready_def
  by (auto intro!: keeps_intros keeps_out split: prod.splits sum.splits option.splits)

lemma poll_rounds_inv: "oks conn_inv (poll_rounds be n b)"
proof (induction n arbitrary: b)
  case (Suc n)
  show ?case
    unfolding poll_rounds.simps oks_def wp_with_state
  proof (intro allI impI, goal_cases)
    case (1 s)
    show ?case
    proof (cases "cn_pending_header_responses s")
      case (Cons pend rest)
      have o: "owned (insert (ph_stream_id pend) (active_ids s)) (poll_pop s)" "ph_stream_id pend \<notin> active_ids s"
        using 1 slots_poll_pop [OF _ Cons] by (auto simp: conn_inv_def owned_def)
      have "wp (poll_one be pend) (\<lambda>_ s'. owned (active_ids s) s' \<and> cn_active_streams s' = cn_active_streams s)
          (\<lambda>_ s'. True \<and> cn_active_streams s' = cn_active_streams s) (poll_pop s)"
        by (intro wp_conj poll_one_owned [OF o] keepsD [OF poll_one_active]) simp
      then have "wp (poll_one be pend) (\<lambda>c. wp (poll_rounds be n (b \<or> c)) (\<lambda>_. conn_inv) (\<lambda>_ _. True)) (\<lambda>_ _. True) (poll_pop s)"
        by (rule wp_weaken) (auto intro!: oksD [OF Suc.IH] simp: conn_inv_def)
      with Cons show ?thesis by (simp add: wp_then_do wp_and_then wp_update_state)
    qed (use 1 in \<open>simp add: wp_simps\<close>)
  qed
qed simp

lemma poll_pending_inv: "oks conn_inv (poll_pending_headers be)"
  unfolding poll_pending_headers_def
  by (intro oks_with oks_intros poll_rounds_inv emit_inv oks_ret)

lemma send_data_owned:
  assumes "owned (insert (pn_stream_id p) A) s" "pn_stream_id p \<notin> A"
  shows "wp (send_data p d dn) (\<lambda>_. owned A) (\<lambda>_ _. True) s"
proof -
  let ?sid = "pn_stream_id p"
  have cw: "window_ok (cn_peer_connection_window s)" using assms by (simp add: owned_def bounds_ok_def)
  have t: "?sid \<in> tracked_ids s" using assms by (auto simp: owned_def slots_def)
  have step: "owned (insert ?sid A) (put_window ?sid w (s\<lparr>cn_peer_connection_window := c\<rparr>))"
    if "window_ok w" "window_ok c" for w c
  proof -
    have "owned (insert ?sid A) (s\<lparr>cn_peer_connection_window := c\<rparr>)"
      using assms that(2) by (simp add: owned_def bounds_ok_def)
    with t that(1) show ?thesis by (simp add: owned_def bounds_put_window slots_put_window)
  qed
  have spend: "window_ok w \<Longrightarrow> window_consume w n = Inr w' \<Longrightarrow> window_ok w'" for w w' n
    using win.spend_sound by blast
  have w: "window_ok w" if "map_of (cn_send_stream_windows s) ?sid = Some w" for w
    using map_of_SomeD [OF that] assms(1) by (force simp: owned_def bounds_ok_def)
  show ?thesis
    unfolding send_data_def Let_def
    using assms step spend [OF cw] spend [OF w]
    by (auto simp: wp_simps split: sum.splits option.splits intro!: wp_emit owned_push owned_finish)
qed

lemma schedule_one_owned:
  assumes "owned (insert (pn_stream_id p) A) s" "pn_stream_id p \<notin> A"
  shows "wp (schedule_one quota p) (\<lambda>_. owned A) (\<lambda>_ _. True) s"
proof (rule wp_schedule_one, goal_cases)
  case 1
  then have "pn_stream_id p \<notin> tracked_ids s" by (simp add: map_of_eq_None_iff)
  with assms show ?case by (auto simp: owned_def slots_def)
next
  case (3 w amt b' r)
  have "wp (send_data (p\<lparr>pn_body := b'\<rparr>) d dn) (\<lambda>_. owned A) (\<lambda>_ _. True) s" for d dn
    using assms by (intro send_data_owned) simp_all
  moreover have "owned A (push_pending (p\<lparr>pn_body := b'\<rparr>) s)" using assms by (intro owned_push) simp_all
  ultimately show ?case using assms
    by (auto simp: send_reset_def wp_simps owned_finish intro!: wp_emit split: sum.splits body_read.splits)
qed (use assms in \<open>simp add: owned_push\<close>)

lemma schedule_one_active: "keeps (\<lambda>s. cn_active_streams s = c) (schedule_one quota p)"
  unfolding schedule_one_def send_data_def send_reset_def Let_def
  by (auto intro!: keeps_intros keeps_out split: prod.splits sum.splits option.splits body_read.splits)

lemma schedule_rounds_inv: "oks conn_inv (schedule_rounds quota n b)"
proof (induction n arbitrary: b)
  case (Suc n)
  show ?case
    unfolding schedule_rounds.simps oks_def wp_with_state
  proof (intro allI impI, goal_cases)
    case (1 s)
    show ?case
    proof (cases "cn_pending_responses s")
      case (Cons p rest)
      have o: "owned (insert (pn_stream_id p) (active_ids s)) (pop_pending s)" "pn_stream_id p \<notin> active_ids s"
        using 1 slots_pop [OF _ Cons] by (auto simp: conn_inv_def owned_def)
      have "wp (schedule_one quota p) (\<lambda>_ s'. owned (active_ids s) s' \<and> cn_active_streams s' = cn_active_streams s)
          (\<lambda>_ s'. True \<and> cn_active_streams s' = cn_active_streams s) (pop_pending s)"
        by (intro wp_conj schedule_one_owned [OF o] keepsD [OF schedule_one_active]) simp
      then have "wp (schedule_one quota p) (\<lambda>c. wp (schedule_rounds quota n (b \<or> c)) (\<lambda>_. conn_inv) (\<lambda>_ _. True)) (\<lambda>_ _. True) (pop_pending s)"
        by (rule wp_weaken) (auto intro!: oksD [OF Suc.IH] simp: conn_inv_def)
      with Cons show ?thesis by (simp add: wp_then_do wp_and_then wp_update_state)
    qed (use 1 in \<open>simp add: wp_simps\<close>)
  qed
qed simp

lemma schedule_inv: "oks conn_inv schedule_pending_responses"
  unfolding schedule_pending_responses_def Let_def
  by (intro oks_with oks_intros schedule_rounds_inv emit_inv oks_ret)

section \<open>The states of the main loop\<close>

text \<open>The limits are fixed for the life of the connection.\<close>

definition limits_of :: "('w, 'p, 'f) h2_conn \<Rightarrow> server_config \<times> nat" where
  "limits_of s = (cn_config s, cn_max_concurrent_streams s)"

lemma limits_view: "reader_view s' = reader_view s \<Longrightarrow> limits_of s' = limits_of s"
  by (simp add: reader_view_def limits_of_def)

lemma fill_to_inv:
  assumes "fill_to chunk n s = (s', r)"
  shows "(conn_inv s \<longrightarrow> conn_inv s') \<and> limits_of s' = limits_of s"
  using assms
proof (induction chunk n s rule: fill_to.induct)
  case (1 chunk n s)
  show ?case
  proof (cases "length (cn_read_buffer s) \<ge> n \<or> chunk = 0")
    case True
    with 1 show ?thesis by (simp add: fill_to.simps [of chunk n s])
  next
    case False
    obtain x inp where e: "io_read (cn_in s) chunk = (x, inp)" by fastforce
    show ?thesis
    proof (cases "\<exists>bs. x = Inr bs \<and> bs \<noteq> []")
      case True
      then obtain bs where bs: "x = Inr bs" "bs \<noteq> []" by blast
      have "fill_to chunk n (s\<lparr>cn_in := inp, cn_read_buffer := cn_read_buffer s @ bs\<rparr>) = (s', r)"
        using "1.prems" False e bs by (simp add: fill_to.simps [of chunk n s])
      from "1.IH" [OF False e [symmetric] bs this] show ?thesis by (simp add: limits_of_def)
    next
      case none: False
      with "1.prems" False e show ?thesis
        by (cases x) (auto simp: fill_to.simps [of chunk n s] limits_of_def)
    qed
  qed
qed

lemma run_frame_inv:
  assumes "conn_inv s" "run_frame be peer f s = (s', None)"
  shows "conn_inv s' \<and> limits_of s' = limits_of s"
proof -
  obtain u where p: "process_frame be peer f s = (s', Inr u)"
    using assms(2) by (auto simp: run_frame_def goaway_break_def split: prod.splits sum.splits)
  from oks_run [OF process_frame_inv assms(1) p] limits_view [OF keeps_run [OF reader_process_frame refl p]]
  show ?thesis by simp
qed

lemma read_frame_inv:
  assumes "conn_inv s" "read_frame be peer s = (s', None)"
  shows "conn_inv s' \<and> limits_of s' = limits_of s"
  using assms(2)
proof (cases rule: read_frame_cases)
  case wait
  with fill_to_inv [OF wait] assms(1) show ?thesis by simp
next
  case (wait_payload s1 n)
  with fill_to_inv [OF wait_payload(1)] fill_to_inv [OF wait_payload(2)] assms(1) show ?thesis by simp
next
  case (frame s1 h n s2 f)
  have "conn_inv (s2\<lparr>cn_read_buffer := drop n (cn_read_buffer s2)\<rparr>)" "limits_of s2 = limits_of s"
    using fill_to_inv [OF frame(1)] fill_to_inv [OF frame(4)] assms(1) by simp_all
  with run_frame_inv [OF _ frame(6)] show ?thesis by (simp add: limits_of_def)
qed

lemma main_turn_inv:
  assumes "conn_inv s" "main_turn be peer s = (s', None)"
  shows "conn_inv s' \<and> limits_of s' = limits_of s"
proof -
  obtain s1 b1 where p: "poll_pending_headers be s = (s1, Inr b1)"
    using assms(2) by (auto simp: main_turn_def goaway_break_def split: prod.splits sum.splits)
  have i1: "conn_inv s1" "limits_of s1 = limits_of s"
    using oks_run [OF poll_pending_inv assms(1) p] limits_view [OF keeps_run [OF reader_poll_pending refl p]] by auto
  show ?thesis
  proof (cases b1)
    case False
    then have t: "serve_turn be peer s1 = (s', None)" using assms(2) p by (simp add: main_turn_def)
    obtain s2 b2 where q: "schedule_pending_responses s1 = (s2, Inr b2)"
      using t by (auto simp: serve_turn_def goaway_break_def split: prod.splits sum.splits)
    have i2: "conn_inv s2" "limits_of s2 = limits_of s"
      using oks_run [OF schedule_inv i1(1) q] limits_view [OF keeps_run [OF reader_schedule refl q]] i1 by auto
    show ?thesis
    proof (cases "b2 \<or> cn_deferred_frames s2 = []")
      case True
      with t q i2 read_frame_inv [OF i2(1), of be peer s'] show ?thesis
        by (auto simp: serve_turn_def split: if_splits)
    next
      case deferred: False
      then obtain f fs where "run_frame be peer f (s2\<lparr>cn_deferred_frames := fs\<rparr>) = (s', None)"
        using t q by (auto simp: serve_turn_def split: list.splits)
      from run_frame_inv [OF _ this] i2 show ?thesis by (simp add: limits_of_def)
    qed
  qed (use assms(2) p i1 in \<open>simp add: main_turn_def\<close>)
qed

inductive conn_reachable :: "('w, 'p, 'f) backend \<Rightarrow> socket_addr option \<Rightarrow> server_config \<Rightarrow> ('w, 'p, 'f) h2_conn \<Rightarrow> bool"
  for be peer cfg where
  start: "conn_reachable be peer cfg ((conn_new cfg secure w inp out)\<lparr>cn_read_buffer := buf\<rparr>)"
| turn: "conn_reachable be peer cfg s \<Longrightarrow> main_turn be peer s = (s', None) \<Longrightarrow> conn_reachable be peer cfg s'"

lemma conn_new_inv: "conn_inv (conn_new cfg secure w inp out)"
  by (simp add: conn_inv_def owned_def bounds_ok_def slots_def conn_new_def DEFAULT_MAX_FRAME_SIZE_def)

lemma reachable_inv:
  "conn_reachable be peer cfg s \<Longrightarrow>
   conn_inv s \<and> limits_of s = (cfg, sc_http2_max_concurrent_streams cfg)"
proof (induction rule: conn_reachable.induct)
  case start
  show ?case by (simp add: conn_new_inv) (simp add: limits_of_def conn_new_def)
next
  case (turn s s')
  with main_turn_inv show ?case by fastforce
qed

text \<open>
  C19. No slot leaks and none is shared: at every turn of the main loop, the streams counted
  against the concurrency limit are exactly those still receiving their request, those waiting
  for upstream headers and those whose body is being sent, each in one of the three groups, and
  there are never more of them than the configured limit.
\<close>

theorem slots_accounted:
  assumes "conn_reachable be peer cfg s"
  shows "tracked_ids s = active_ids s \<union> sending_ids s \<union> awaiting_ids s
    \<and> active_ids s \<inter> sending_ids s = {} \<and> active_ids s \<inter> awaiting_ids s = {} \<and> sending_ids s \<inter> awaiting_ids s = {}
    \<and> tracked_stream_count s = card (tracked_ids s)
    \<and> tracked_stream_count s \<le> sc_http2_max_concurrent_streams cfg"
proof -
  from reachable_inv [OF assms] have inv: "bounds_ok s" "slots (active_ids s) s"
    and lim: "cn_max_concurrent_streams s = sc_http2_max_concurrent_streams cfg"
    by (auto simp: conn_inv_def owned_def limits_of_def)
  have "length (cn_send_stream_windows s) = card (tracked_ids s)"
    using inv(1) distinct_card [of "map fst (cn_send_stream_windows s)"] by (simp add: bounds_ok_def)
  with inv lim show ?thesis by (auto simp: tracked_stream_count_def bounds_ok_def slots_def)
qed

text \<open>A server without upstreams that gives every request the same answer.\<close>

definition static_backend :: "http_response \<Rightarrow> (unit, unit, unit) backend" where
  "static_backend resp =
     \<lparr>be_effective_config = (\<lambda>_. server_config_default), be_handle_request = (\<lambda>w _ _. (w, resp)),
      be_proxy_matches = (\<lambda>_ _. False), be_proxy_begin = (\<lambda>w _ _ _ _. (w, Inr None)),
      be_proxy_poll = (\<lambda>w p. (w, p, Inl ())), be_fastcgi_matches = (\<lambda>_ _. False),
      be_fastcgi_begin = (\<lambda>w _ _ _ _. (w, Inr None)), be_fastcgi_poll = (\<lambda>w p. (w, p, Inl ())),
      be_gzip = (\<lambda>_ src. src)\<rparr>"

text \<open>A POST whose body has not arrived: the connection after its HEADERS frame.\<close>

definition demo_start :: "(unit, unit, unit) h2_conn" where
  "demo_start = (conn_new server_config_default False () [] good_sink)
     \<lparr>cn_read_buffer := frame_encode (mk_frame 3 HeadersT END_HEADERS 1 (Headers [0x83, 0x86, 0x84] False True))\<rparr>"

definition demo_open :: "(unit, unit, unit) h2_conn" where
  "demo_open = fst (main_turn (static_backend (response_new Ok)) None demo_start)"

lemma demo_turn:
  "(let (s, r) = main_turn (static_backend (response_new Ok)) None demo_start
    in (r, map fst (cn_active_streams s), cn_last_stream_id s)) = (None, [1], 1)"
  by code_simp

lemma demo_reachable:
  "conn_reachable (static_backend (response_new Ok)) None server_config_default demo_open"
  "active_ids demo_open = {1}" "cn_last_stream_id demo_open = 1"
proof -
  have t: "main_turn (static_backend (response_new Ok)) None demo_start = (demo_open, None)"
    and k: "map fst (cn_active_streams demo_open) = [1]" and "cn_last_stream_id demo_open = 1"
    using demo_turn by (auto simp: demo_open_def split: prod.splits)
  then show "cn_last_stream_id demo_open = 1" by simp
  show "active_ids demo_open = {1}" using arg_cong [OF k, of set] by simp
  show "conn_reachable (static_backend (response_new Ok)) None server_config_default demo_open"
    using t unfolding demo_start_def by (rule conn_reachable.turn [OF conn_reachable.start])
qed

theorem slots_accounted_witness:
  "conn_reachable (static_backend (response_new Ok)) None server_config_default demo_open
   \<and> active_ids demo_open = {1}
   \<and> tracked_ids demo_open = {1} \<union> sending_ids demo_open \<union> awaiting_ids demo_open
   \<and> tracked_stream_count demo_open \<le> 100"
proof -
  have "sc_http2_max_concurrent_streams server_config_default = 100" by (simp add: server_config_default_def)
  moreover have "tracked_ids demo_open = active_ids demo_open \<union> sending_ids demo_open \<union> awaiting_ids demo_open"
    "tracked_stream_count demo_open \<le> sc_http2_max_concurrent_streams server_config_default"
    using slots_accounted [OF demo_reachable(1)] by - (elim conjE, assumption)+
  ultimately show ?thesis using demo_reachable by simp
qed



end
