(* ===== verification/H2_Sending.thy ===== *)
theory H2_Sending
  imports H2_Safety
begin

text \<open>
  The sending side of the HTTP/2 connection: a pending body delivers its bytes in order however
  it is cut into chunks; the fragments of a header block reassemble to it; and one round of the
  scheduler obeys the peer's windows and frame size and never fails by itself.
\<close>

section \<open>A pending body is a queue of bytes\<close>

text \<open>A reader may ask to wait; the data is what it delivers in between.\<close>

fun reader_bytes :: "source \<Rightarrow> bytes" where
  "reader_bytes [] = []"
| "reader_bytes (Chunk bs # src) = bs @ reader_bytes src"
| "reader_bytes (Fault k # src) = reader_bytes src"

fun reader_clean :: "source \<Rightarrow> bool" where
  "reader_clean [] \<longleftrightarrow> True"
| "reader_clean (Chunk bs # src) \<longleftrightarrow> bs \<noteq> [] \<and> reader_clean src"
| "reader_clean (Fault k # src) \<longleftrightarrow> k \<in> {WouldBlock, TimedOut} \<and> reader_clean src"

fun pending_bytes :: "pending_body \<Rightarrow> bytes" where
  "pending_bytes (BytesPending d offset) = drop offset d"
| "pending_bytes (FilePending f n) = take n (source_bytes f)"
| "pending_bytes (ReaderPending r None) = reader_bytes r"
| "pending_bytes (ReaderPending r (Some n)) = take n (reader_bytes r)"

fun body_clean :: "pending_body \<Rightarrow> bool" where
  "body_clean (BytesPending d offset) \<longleftrightarrow> offset \<le> length d"
| "body_clean (FilePending f n) \<longleftrightarrow> source_clean f \<and> 0 < n \<and> n \<le> length (source_bytes f)"
| "body_clean (ReaderPending r None) \<longleftrightarrow> reader_clean r"
| "body_clean (ReaderPending r (Some n)) \<longleftrightarrow> reader_clean r \<and> n \<le> length (reader_bytes r)"

lemma io_read_reader:
  assumes "reader_clean src" "0 < n" "io_read src n = (r, src')"
  shows "reader_clean src' \<and>
    (case r of Inr bs \<Rightarrow> reader_bytes src = bs @ reader_bytes src' \<and> (bs = [] \<longleftrightarrow> src = [])
     | Inl k \<Rightarrow> k \<in> {WouldBlock, TimedOut} \<and> reader_bytes src' = reader_bytes src)"
  using assms by (cases "(src, n)" rule: io_read.cases) (auto split: if_splits)

lemma take_split:
  "xs = ys @ zs \<Longrightarrow> length ys \<le> n \<Longrightarrow> take n xs = ys @ take (n - length ys) zs"
  by simp

lemma read_bytes_delivers:
  "offset \<le> length d \<Longrightarrow> read_bytes_body d offset mx = (b', r) \<Longrightarrow>
   \<exists>c dn. r = Inr (ReadData c dn) \<and> body_clean b' \<and> drop offset d = c @ pending_bytes b' \<and> length c \<le> mx
     \<and> (dn \<longrightarrow> pending_bytes b' = [])"
  by (auto simp: read_bytes_body_def Let_def min_def drop_take)
     (metis append_take_drop_id drop_drop add.commute)

lemma read_file_delivers:
  assumes "source_clean f" "0 < n" "n \<le> length (source_bytes f)" "0 < mx" "read_file_body f n mx = (b', r)"
  shows "\<exists>c dn. r = Inr (ReadData c dn) \<and> (dn \<or> body_clean b') \<and> take n (source_bytes f) = c @ pending_bytes b' \<and> length c \<le> mx
     \<and> (dn \<longrightarrow> pending_bytes b' = [])"
proof -
  obtain x f' where e: "io_read f (min n mx) = (x, f')" by fastforce
  have "0 < min n mx" using assms by simp
  from io_read_clean [OF assms(1) this e] obtain bs where
    bs: "x = Inr bs" "source_clean f'" "source_bytes f = bs @ source_bytes f'" "bs = [] \<longleftrightarrow> f = []" by blast
  have "f \<noteq> []" using assms(2,3) by auto
  with bs have ne: "bs \<noteq> []" by simp
  have len: "length bs \<le> min n mx" using io_read_bound [of f "min n mx" bs f'] e bs(1) by simp
  have r: "b' = FilePending f' (n - length bs)" "r = Inr (ReadData bs (n - length bs = 0))"
    using assms(5) e bs(1) ne by (auto simp: read_file_body_def)
  have "take n (source_bytes f) = bs @ take (n - length bs) (source_bytes f')"
    using len bs(3) by (intro take_split) simp_all
  with r len bs assms(3) show ?thesis by auto
qed

lemma read_reader_delivers:
  assumes "body_clean (ReaderPending rd rem)" "0 < mx" "read_reader_body rd rem mx = (b', r)"
  shows "\<exists>x. r = Inr x \<and> (case x of
      ReadData c dn \<Rightarrow> body_clean b' \<and> pending_bytes (ReaderPending rd rem) = c @ pending_bytes b'
        \<and> length c \<le> mx \<and> (dn \<longrightarrow> pending_bytes b' = [])
    | ReadPending \<Rightarrow> body_clean b' \<and> pending_bytes b' = pending_bytes (ReaderPending rd rem)
    | ReadDone \<Rightarrow> pending_bytes (ReaderPending rd rem) = [])"
proof -
  let ?want = "case rem of None \<Rightarrow> mx | Some left \<Rightarrow> min left mx"
  show ?thesis
  proof (cases "?want = 0")
    case True
    with assms(2) have "rem = Some 0" by (cases rem) (auto simp: min_def split: if_splits)
    with assms show ?thesis by (auto simp: read_reader_body_def)
  next
    case False
    obtain x rd' where e: "io_read rd ?want = (x, rd')" by fastforce
    have clean: "reader_clean rd" using assms(1) by (cases rem) auto
    note io = io_read_reader [OF clean _ e]
    show ?thesis
    proof (cases x)
      case (Inl k)
      have k: "k = WouldBlock \<or> k = TimedOut" "reader_clean rd'" "reader_bytes rd' = reader_bytes rd"
        using io False Inl by simp_all
      have "b' = ReaderPending rd' rem" "r = Inr ReadPending"
        using assms(3) False e Inl k(1) by (auto simp: read_reader_body_def Let_def)
      with k(2,3) assms(1) show ?thesis by (cases rem) auto
    next
      case (Inr bs)
      have len: "length bs \<le> ?want" using io_read_bound [of rd ?want bs rd'] e Inr by simp
      have del: "reader_clean rd'" "reader_bytes rd = bs @ reader_bytes rd'" "bs = [] \<longleftrightarrow> rd = []"
        using io False Inr by simp_all
      show ?thesis
      proof (cases rem)
        case None
        with assms False e Inr del len show ?thesis by (auto simp: read_reader_body_def)
      next
        case (Some left)
        have "take left (reader_bytes rd) = bs @ take (left - length bs) (reader_bytes rd')"
          using len del(2) Some by (intro take_split) simp_all
        moreover have "bs \<noteq> []" using False Some del assms(1) by auto
        then have "b' = ReaderPending rd' (Some (left - length bs))"
            "r = Inr (ReadData bs (left - length bs = 0))"
          using assms(3) False e Inr len Some
          by (auto simp: read_reader_body_def Let_def split: if_splits)
        ultimately show ?thesis using len Some del assms(1) by auto
      qed
    qed
  qed
qed

lemma read_chunk_delivers:
  assumes "body_clean b" "0 < mx" "read_chunk b mx = (b', r)"
  shows "\<exists>x. r = Inr x \<and> (case x of
      ReadData c dn \<Rightarrow> (dn \<or> body_clean b') \<and> pending_bytes b = c @ pending_bytes b' \<and> length c \<le> mx
        \<and> (dn \<longrightarrow> pending_bytes b' = [])
    | ReadPending \<Rightarrow> body_clean b' \<and> pending_bytes b' = pending_bytes b
    | ReadDone \<Rightarrow> pending_bytes b = [])"
proof (cases b)
  case (BytesPending d offset)
  with assms read_bytes_delivers [of offset d mx b' r] show ?thesis by auto
next
  case (FilePending f n)
  with assms read_file_delivers [of f n mx b' r] show ?thesis by auto
next
  case (ReaderPending rd rem)
  with read_reader_delivers [of rd rem mx b' r] assms show ?thesis
    by (auto split: body_read.splits)
qed



section \<open>What a round of the scheduler puts on the wire\<close>

definition data_len :: "frame \<Rightarrow> nat" where
  "data_len f = (case fr_payload f of Data d _ \<Rightarrow> length d | _ \<Rightarrow> 0)"

definition data_total :: "frame list \<Rightarrow> nat" where
  "data_total fs = sum_list (map data_len fs)"

definition data_for :: "u32 \<Rightarrow> frame list \<Rightarrow> nat" where
  "data_for sid fs = data_total (filter (\<lambda>f. fh_stream_id (fr_header f) = sid) fs)"

definition stream_credit :: "('w, 'p, 'f) h2_conn \<Rightarrow> u32 \<Rightarrow> int" where
  "stream_credit s sid = (case map_of (cn_send_stream_windows s) sid of None \<Rightarrow> 0 | Some w \<Rightarrow> available w)"

text \<open>The sink took exactly these bytes; writes that fail leave nothing behind.\<close>

definition grown :: "sink \<Rightarrow> bytes \<Rightarrow> sink \<Rightarrow> bool" where
  "grown out bs out' \<longleftrightarrow>
     written out' = written out @ bs \<and> failing out' = failing out \<and> n_writes out \<le> n_writes out'"

definition can_fail :: "sink \<Rightarrow> bool" where
  "can_fail out \<longleftrightarrow> (\<exists>k \<ge> n_writes out. failing out k)"

lemma grown_refl [simp]: "grown out [] out"
  by (simp add: grown_def)

lemma grown_trans: "grown a bs b \<Longrightarrow> grown b cs c \<Longrightarrow> grown a (bs @ cs) c"
  by (auto simp: grown_def)

lemma can_fail_grown: "grown a bs b \<Longrightarrow> can_fail b \<Longrightarrow> can_fail a"
  unfolding grown_def can_fail_def by (metis order_trans)

text \<open>A single write.\<close>

lemma write_grown:
  "write_all out bs = (True, out') \<Longrightarrow> grown out bs out'"
  "write_all out bs = (False, out') \<Longrightarrow> grown out [] out' \<and> can_fail out"
  by (auto simp: write_all_def grown_def can_fail_def split: if_splits)

text \<open>
  The frames \<open>fs\<close> were written and the peer had allowed them: their data fits the window of the
  connection, that of each stream, and the frame size.
\<close>

definition wire :: "('w, 'p, 'f) h2_conn \<Rightarrow> frame list \<Rightarrow> ('w, 'p, 'f) h2_conn \<Rightarrow> bool" where
  "wire s fs s' \<longleftrightarrow>
     grown (cn_out s) (concat (map frame_encode fs)) (cn_out s')
     \<and> int (data_total fs) \<le> max 0 (available (cn_peer_connection_window s))
     \<and> (\<forall>sid. int (data_for sid fs) \<le> max 0 (stream_credit s sid))
     \<and> (\<forall>f \<in> set fs. data_len f \<le> unat (cn_peer_max_frame_size s))"

text \<open>The windows have paid for the data, to the byte.\<close>

definition charged :: "('w, 'p, 'f) h2_conn \<Rightarrow> frame list \<Rightarrow> ('w, 'p, 'f) h2_conn \<Rightarrow> bool" where
  "charged s fs s' \<longleftrightarrow>
     available (cn_peer_connection_window s') = available (cn_peer_connection_window s) - int (data_total fs)
     \<and> cn_peer_max_frame_size s' = cn_peer_max_frame_size s
     \<and> (\<forall>sid w'. map_of (cn_send_stream_windows s') sid = Some w' \<longrightarrow>
          (\<exists>w. map_of (cn_send_stream_windows s) sid = Some w \<and> available w' = available w - int (data_for sid fs)))"

definition wins_ok :: "('w, 'p, 'f) h2_conn \<Rightarrow> bool" where
  "wins_ok s \<longleftrightarrow> distinct (map fst (cn_send_stream_windows s)) \<and> window_ok (cn_peer_connection_window s)
     \<and> (\<forall>x \<in> set (cn_send_stream_windows s). window_ok (snd x))"

lemma data_simps [simp]:
  "data_total [] = 0" "data_total (f # fs) = data_len f + data_total fs"
  "data_total (fs @ gs) = data_total fs + data_total gs"
  "data_for sid [] = 0" "data_for sid (f # fs) = (if fh_stream_id (fr_header f) = sid then data_len f else 0) + data_for sid fs"
  "data_for sid (fs @ gs) = data_for sid fs + data_for sid gs"
  by (simp_all add: data_total_def data_for_def)

lemma frame_simps [simp]:
  "data_len (data_frame sid d dn) = length d" "data_len (rst_frame sid e) = 0"
  "fh_stream_id (fr_header (data_frame sid d dn)) = sid" "fh_stream_id (fr_header (rst_frame sid e)) = sid"
  by (simp_all add: data_len_def data_frame_def rst_frame_def mk_frame_def)

lemma stream_credit_charged:
  "charged s fs s' \<Longrightarrow> stream_credit s' sid = 0 \<or> stream_credit s' sid = stream_credit s sid - int (data_for sid fs)"
  by (fastforce simp: charged_def stream_credit_def split: option.splits)

lemma wire_trans:
  assumes "wire s fs s1" "charged s fs s1" "wire s1 gs s2"
  shows "wire s (fs @ gs) s2"
proof -
  have "int (data_for sid (fs @ gs)) \<le> max 0 (stream_credit s sid)" for sid
  proof -
    have "int (data_for sid fs) \<le> max 0 (stream_credit s sid)" "int (data_for sid gs) \<le> max 0 (stream_credit s1 sid)"
      using assms(1,3) by (simp_all add: wire_def)
    with stream_credit_charged [OF assms(2), of sid] show ?thesis by (auto simp: max_def split: if_splits)
  qed
  with assms show ?thesis by (auto simp: wire_def charged_def intro: grown_trans)
qed

lemma charged_trans: "charged s fs s1 \<Longrightarrow> charged s1 gs s2 \<Longrightarrow> charged s (fs @ gs) s2"
  by (fastforce simp: charged_def)

lemma wire_refl: "cn_out s' = cn_out s \<Longrightarrow> wire s [] s'"
  by (simp add: wire_def)

lemma charged_refl [simp]:
  "charged s [] s" "charged s [] (push_pending p s')= charged s [] s'" "charged s [] (pop_pending s') = charged s [] s'"
  by (simp_all add: charged_def push_pending_def pop_pending_def)

lemma cn_out_pop [simp]: "cn_out (pop_pending s) = cn_out s"
  by (simp add: pop_pending_def)

lemma wins_simps [simp]:
  "wins_ok (push_pending p s) = wins_ok s" "wins_ok (pop_pending s) = wins_ok s" "wins_ok (s\<lparr>cn_out := out\<rparr>) = wins_ok s"
  by (simp_all add: wins_ok_def push_pending_def pop_pending_def)

text \<open>Closing a stream only takes its window away.\<close>

lemma finish_simps [simp]:
  "cn_out (finish_stream sid s) = cn_out s" "cn_peer_connection_window (finish_stream sid s) = cn_peer_connection_window s"
  "cn_peer_max_frame_size (finish_stream sid s) = cn_peer_max_frame_size s"
  "cn_send_stream_windows (finish_stream sid s) = AList.delete sid (cn_send_stream_windows s)"
  by (simp_all add: finish_stream_def mark_closed_stream_def remove_window_def Let_def)

lemma charged_finish: "charged s fs s' \<Longrightarrow> charged s fs (finish_stream sid s')"
  by (auto simp: charged_def delete_conv' split: if_splits)

lemma wins_finish: "wins_ok s \<Longrightarrow> wins_ok (finish_stream sid s)"
  by (auto simp: wins_ok_def distinct_delete dest: set_al_delete)

text \<open>A write either happens as a whole or ends the round with an internal error.\<close>

lemma wp_emit_wire:
  "(\<And>out. grown (cn_out s) (frame_encode f) out \<Longrightarrow> Q () (s\<lparr>cn_out := out\<rparr>)) \<Longrightarrow>
   (\<And>out. grown (cn_out s) [] out \<Longrightarrow> can_fail (cn_out s) \<Longrightarrow> E InternalError (s\<lparr>cn_out := out\<rparr>)) \<Longrightarrow> wp (emit f) Q E s"
  by (cases "write_all (cn_out s) (frame_encode f)")
     (auto simp: wp_def emit_def write_out_def write_grown)

text \<open>Both windows pay for a DATA frame that fits them, and then it is written.\<close>

definition pay :: "u32 \<Rightarrow> nat \<Rightarrow> ('w, 'p, 'f) h2_conn \<Rightarrow> ('w, 'p, 'f) h2_conn" where
  "pay sid n s = put_window sid \<lparr>available = stream_credit s sid - int n\<rparr>
     (s\<lparr>cn_peer_connection_window := \<lparr>available = available (cn_peer_connection_window s) - int n\<rparr>\<rparr>)"

lemma window_ok_spend: "window_ok w \<Longrightarrow> int n \<le> available w \<Longrightarrow> window_ok \<lparr>available = available w - int n\<rparr>"
  by (simp add: window_ok_def)

lemma pay_charged:
  assumes "map_of (cn_send_stream_windows s) sid = Some w" "fh_stream_id (fr_header f) = sid" "data_len f = n"
  shows "charged s [f] (pay sid n s)"
  using assms by (auto simp: charged_def pay_def put_window_def update_conv' stream_credit_def split: if_splits)

lemma pay_wins:
  assumes "wins_ok s" "map_of (cn_send_stream_windows s) sid = Some w" "int n \<le> available w"
    "int n \<le> available (cn_peer_connection_window s)"
  shows "wins_ok (pay sid n s)"
  using assms map_of_SomeD [OF assms(2)]
  by (fastforce simp: wins_ok_def pay_def put_window_def stream_credit_def distinct_update window_ok_spend
      dest: set_al_update)

lemma pay_simps [simp]:
  "cn_out (pay sid n s) = cn_out s" "cn_peer_max_frame_size (pay sid n s) = cn_peer_max_frame_size s"
  by (simp_all add: pay_def put_window_def)

lemma window_eq: "w\<lparr>available := a\<rparr> = \<lparr>available = a\<rparr>" for w :: window
  by simp

lemma read_chunk_bound:
  "read_chunk b mx = (b', Inr (ReadData d dn)) \<Longrightarrow> length d \<le> mx"
  by (cases b)
     (auto simp: read_bytes_body_def read_file_body_def read_reader_body_def Let_def
       split: prod.splits sum.splits if_splits option.splits dest!: io_read_bound)

lemma wp_send_data:
  assumes ok: "wins_ok s" and w: "map_of (cn_send_stream_windows s) (pn_stream_id p) = Some w"
    and fits: "int (length d) \<le> available w" "int (length d) \<le> available (cn_peer_connection_window s)"
      "length d \<le> unat (cn_peer_max_frame_size s)"
    and go: "d \<noteq> [] \<or> dn"
    and Q: "\<And>out s1. s1 = (if d = [] then s else pay (pn_stream_id p) (length d) s) \<Longrightarrow>
      grown (cn_out s) (frame_encode (data_frame (pn_stream_id p) d dn)) out \<Longrightarrow>
      Q True ((if dn then finish_stream (pn_stream_id p) else push_pending p) (s1\<lparr>cn_out := out\<rparr>))"
    and E: "\<And>out s1. grown (cn_out s) [] out \<Longrightarrow> can_fail (cn_out s) \<Longrightarrow> E InternalError (s1\<lparr>cn_out := out\<rparr>)"
  shows "wp (send_data p d dn) Q E s"
proof (cases "d = []")
  case True
  with go Q [of s] E [of _ s] show ?thesis
    by (simp add: send_data_def wp_simps Let_def) (rule wp_emit_wire; simp)
next
  case False
  let ?sid = "pn_stream_id p" and ?n = "of_nat (length d) :: u32"
  have "length d < 2 ^ 32" using fits(3) unsigned_less [of "cn_peer_max_frame_size s", where ?'a = nat] by simp
  then have n: "uint ?n = int (length d)" by (simp add: unsigned_of_nat take_bit_nat_eq_self)
  have oks: "window_ok w" "window_ok (cn_peer_connection_window s)"
    using ok map_of_SomeD [OF w] by (auto simp: wins_ok_def)
  have spend: "window_consume w ?n = Inr \<lparr>available = available w - int (length d)\<rparr>"
    "window_consume (cn_peer_connection_window s) ?n =
       Inr \<lparr>available = available (cn_peer_connection_window s) - int (length d)\<rparr>"
    using oks fits n by (simp_all add: window_consume_exact)
  have "put_window ?sid \<lparr>available = available w - int (length d)\<rparr>
      (s\<lparr>cn_peer_connection_window := \<lparr>available = available (cn_peer_connection_window s) - int (length d)\<rparr>\<rparr>)
    = pay ?sid (length d) s"
    using w by (simp add: pay_def stream_credit_def)
  with False w spend show ?thesis
    by (cases dn; simp add: send_data_def wp_simps Let_def)
       (rule wp_emit_wire; use Q [of "pay ?sid (length d) s"] E [of _ "pay ?sid (length d) s"] in simp)+
qed

section \<open>What a round delivers\<close>

definition pending_body_of :: "('w, 'p, 'f) h2_conn \<Rightarrow> u32 \<Rightarrow> pending_body option" where
  "pending_body_of s = map_of (map (\<lambda>p. (pn_stream_id p, pn_body p)) (cn_pending_responses s))"

definition queue_bytes :: "('w, 'p, 'f) h2_conn \<Rightarrow> u32 \<Rightarrow> bytes" where
  "queue_bytes s sid = (case pending_body_of s sid of None \<Rightarrow> [] | Some b \<Rightarrow> pending_bytes b)"

definition frame_data :: "u32 \<Rightarrow> frame \<Rightarrow> bytes" where
  "frame_data sid f = (case fr_payload f of Data d _ \<Rightarrow> if fh_stream_id (fr_header f) = sid then d else [] | _ \<Rightarrow> [])"

definition payload_for :: "u32 \<Rightarrow> frame list \<Rightarrow> bytes" where
  "payload_for sid fs = concat (map (frame_data sid) fs)"

definition ends_stream :: "u32 \<Rightarrow> frame \<Rightarrow> bool" where
  "ends_stream sid f \<longleftrightarrow> fh_stream_id (fr_header f) = sid \<and> (\<exists>d. fr_payload f = Data d True)"

text \<open>Every waiting body is intact and belongs to an open stream of its own.\<close>

definition feed :: "('w, 'p, 'f) h2_conn \<Rightarrow> bool" where
  "feed s \<longleftrightarrow> distinct (map pn_stream_id (cn_pending_responses s)) \<and> 0 < unat (cn_peer_max_frame_size s)
     \<and> (\<forall>p \<in> set (cn_pending_responses s). body_clean (pn_body p)
          \<and> pn_stream_id p \<in> fst ` set (cn_send_stream_windows s))"

definition delivered :: "('w, 'p, 'f) h2_conn \<Rightarrow> frame list \<Rightarrow> ('w, 'p, 'f) h2_conn \<Rightarrow> bool" where
  "delivered s fs s' \<longleftrightarrow>
     (\<forall>sid. queue_bytes s sid = payload_for sid fs @ queue_bytes s' sid)
     \<and> (\<forall>sid. pending_body_of s sid \<noteq> None \<and> pending_body_of s' sid = None \<longrightarrow> list_ex (ends_stream sid) fs)"

lemma delivered_trans: "delivered s fs s1 \<Longrightarrow> delivered s1 gs s2 \<Longrightarrow> delivered s (fs @ gs) s2"
  unfolding delivered_def payload_for_def by (metis append.assoc concat_append list_ex_append map_append)

lemma delivered_push:
  assumes "cn_pending_responses s = p # rest" "distinct (map pn_stream_id (cn_pending_responses s))"
    "cn_pending_responses s' = rest @ [p\<lparr>pn_body := b\<rparr>]" "pending_bytes (pn_body p) = d @ pending_bytes b"
    "fs = [] \<and> d = [] \<or> fs = [data_frame (pn_stream_id p) d dn]"
  shows "delivered s fs s'"
proof -
  have out: "map_of (map (\<lambda>p. (pn_stream_id p, pn_body p)) rest) (pn_stream_id p) = None"
    using assms by (simp add: map_of_eq_None_iff image_iff)
  show ?thesis using assms out
    by (auto simp: delivered_def queue_bytes_def pending_body_of_def payload_for_def frame_data_def data_frame_def
        mk_frame_def map_add_def split: option.splits if_splits)
qed

lemma delivered_last:
  assumes "cn_pending_responses s = p # rest" "distinct (map pn_stream_id (cn_pending_responses s))"
    "cn_pending_responses s' = rest" "pending_bytes (pn_body p) = d"
    "fs = [data_frame (pn_stream_id p) d True]"
  shows "delivered s fs s'"
proof -
  have out: "map_of (map (\<lambda>p. (pn_stream_id p, pn_body p)) rest) (pn_stream_id p) = None"
    using assms by (simp add: map_of_eq_None_iff image_iff)
  show ?thesis using assms out
    by (auto simp: delivered_def queue_bytes_def pending_body_of_def payload_for_def frame_data_def data_frame_def
        mk_frame_def ends_stream_def split: option.splits if_splits)
qed

section \<open>One round\<close>

definition round_ok :: "('w, 'p, 'f) h2_conn \<Rightarrow> bool \<Rightarrow> ('w, 'p, 'f) h2_conn \<Rightarrow> bool" where
  "round_ok s b s' \<longleftrightarrow>
     (\<exists>fs. wire s fs s' \<and> charged s fs s' \<and> (b \<longleftrightarrow> fs \<noteq> []) \<and> (feed s \<longrightarrow> delivered s fs s'))
     \<and> wins_ok s' \<and> (feed s \<longrightarrow> feed s')"

definition round_err :: "('w, 'p, 'f) h2_conn \<Rightarrow> http2_error_code \<Rightarrow> ('w, 'p, 'f) h2_conn \<Rightarrow> bool" where
  "round_err s e s' \<longleftrightarrow> e = InternalError \<and> (\<exists>fs. wire s fs s') \<and> can_fail (cn_out s)"

lemma round_ok_refl: "wins_ok s \<Longrightarrow> round_ok s False s"
  by (auto simp: round_ok_def delivered_def payload_for_def intro!: exI [of _ "[]"] wire_refl)

lemma round_ok_trans:
  assumes "round_ok s b s1" "round_ok s1 c s2" shows "round_ok s (b \<or> c) s2"
proof -
  from assms obtain fs gs where fs: "wire s fs s1" "charged s fs s1" "b \<longleftrightarrow> fs \<noteq> []" "feed s \<longrightarrow> delivered s fs s1"
      "feed s \<longrightarrow> feed s1"
    and gs: "wire s1 gs s2" "charged s1 gs s2" "c \<longleftrightarrow> gs \<noteq> []" "feed s1 \<longrightarrow> delivered s1 gs s2" "wins_ok s2"
      "feed s1 \<longrightarrow> feed s2"
    by (auto simp: round_ok_def)
  have "wire s (fs @ gs) s2" "charged s (fs @ gs) s2" "feed s \<longrightarrow> delivered s (fs @ gs) s2"
    using fs gs wire_trans charged_trans delivered_trans by blast+
  with fs gs show ?thesis unfolding round_ok_def by (auto intro!: exI [of _ "fs @ gs"])
qed

lemma round_err_trans: "round_ok s b s1 \<Longrightarrow> round_err s1 e s2 \<Longrightarrow> round_err s e s2"
  unfolding round_ok_def round_err_def using wire_trans can_fail_grown by (metis wire_def)

lemma feed_push:
  assumes "feed s" "cn_pending_responses s = p # rest" "cn_pending_responses s' = rest @ [p\<lparr>pn_body := b\<rparr>]" "body_clean b"
    "cn_peer_max_frame_size s' = cn_peer_max_frame_size s"
    "fst ` set (cn_send_stream_windows s') = fst ` set (cn_send_stream_windows s)"
  shows "feed s'"
  using assms by (auto simp: feed_def)

lemma feed_last:
  assumes "feed s" "cn_pending_responses s = p # rest" "cn_pending_responses s' = rest"
    "cn_peer_max_frame_size s' = cn_peer_max_frame_size s"
    "fst ` set (cn_send_stream_windows s') = fst ` set (cn_send_stream_windows s) - {pn_stream_id p}"
  shows "feed s'"
proof -
  have "pn_stream_id p \<notin> pn_stream_id ` set rest" using assms(1,2) by (simp add: feed_def)
  then have "pn_stream_id q \<noteq> pn_stream_id p" if "q \<in> set rest" for q using that by (metis imageI)
  then show ?thesis using assms by (simp add: feed_def)
qed

text \<open>The three ways a round ends for the response at the head of the queue.\<close>

lemma round_push:
  assumes "wins_ok s" "cn_pending_responses s = p # rest"
    "feed s \<longrightarrow> body_clean b \<and> pending_bytes b = pending_bytes (pn_body p)"
  shows "round_ok s False (push_pending (p\<lparr>pn_body := b\<rparr>) (pop_pending s))" (is "round_ok s False ?s'")
proof -
  have same: "cn_pending_responses ?s' = rest @ [p\<lparr>pn_body := b\<rparr>]" "cn_out ?s' = cn_out s"
      "cn_peer_max_frame_size ?s' = cn_peer_max_frame_size s" "cn_send_stream_windows ?s' = cn_send_stream_windows s"
    using assms(2) by (simp_all add: push_pending_def pop_pending_def)
  have "feed s \<longrightarrow> feed ?s'" using feed_push [OF _ assms(2) same(1)] same assms(3) by simp
  moreover have "feed s \<longrightarrow> delivered s [] ?s'"
    using delivered_push [OF assms(2) _ same(1), of "[]" "[]"] assms(3) by (simp add: feed_def)
  ultimately show ?thesis using assms(1) wire_refl [OF same(2)]
    unfolding round_ok_def by (auto intro!: exI [of _ "[]"])
qed

lemma round_frame:
  assumes ok: "wins_ok s" and pend: "cn_pending_responses s = p # rest"
    and w: "map_of (cn_send_stream_windows s) (pn_stream_id p) = Some w"
    and fits: "int (length d) \<le> available w" "int (length d) \<le> available (cn_peer_connection_window s)"
      "length d \<le> unat (cn_peer_max_frame_size s)"
    and body: "feed s \<longrightarrow> (if dn then pending_bytes (pn_body p) = d else body_clean b \<and> pending_bytes (pn_body p) = d @ pending_bytes b)"
    and s1: "s1 = (if d = [] then pop_pending s else pay (pn_stream_id p) (length d) (pop_pending s))"
    and out: "grown (cn_out s) (frame_encode (data_frame (pn_stream_id p) d dn)) out"
  shows "round_ok s True ((if dn then finish_stream (pn_stream_id p) else push_pending (p\<lparr>pn_body := b\<rparr>)) (s1\<lparr>cn_out := out\<rparr>))"
    (is "round_ok s True ?s'")
proof -
  let ?sid = "pn_stream_id p" and ?f = "data_frame (pn_stream_id p) d dn"
  let ?t = "pop_pending s"
  have t: "cn_send_stream_windows ?t = cn_send_stream_windows s" "wins_ok ?t"
    "cn_peer_connection_window ?t = cn_peer_connection_window s" "cn_pending_responses ?t = rest"
    using pend ok by (simp_all add: pop_pending_def wins_ok_def)
  have keys: "fst ` set (cn_send_stream_windows s1) = fst ` set (cn_send_stream_windows s)"
    using map_of_SomeD [OF w] by (force simp: s1 pay_def put_window_def keys_al_update t(1))
  have wins: "wins_ok s1" using pay_wins [of ?t ?sid w "length d"] w fits t by (simp add: s1)
  have "charged ?t [?f] s1"
    using pay_charged [of ?t ?sid w ?f "length d"] w t by (simp add: s1) (simp add: charged_def)
  then have c1: "charged s [?f] s1" by (simp add: charged_def pop_pending_def)
  have c2: "charged s [?f] (s1\<lparr>cn_out := out\<rparr>)" using c1 by (simp add: charged_def)
  have c: "charged s [?f] ?s'"
    using charged_finish [OF c2] c2 by (simp add: charged_def push_pending_def)
  have wi: "wire s [?f] ?s'" using out fits w by (auto simp: wire_def stream_credit_def push_pending_def)
  have rest: "cn_pending_responses s1 = rest" using t by (simp add: s1 pay_def put_window_def)
  have pends: "cn_pending_responses ?s' = (if dn then rest else rest @ [p\<lparr>pn_body := b\<rparr>])"
    using rest by (simp add: push_pending_def finish_stream_def mark_closed_stream_def remove_window_def Let_def)
  have mx: "cn_peer_max_frame_size ?s' = cn_peer_max_frame_size s"
    using c by (simp add: charged_def)
  have f: "feed ?s' \<and> delivered s [?f] ?s'" if fd: "feed s"
  proof (cases dn)
    case True
    have "feed ?s'" using True pends mx keys
      by (intro feed_last [OF fd pend]) (simp_all add: keys_al_delete)
    moreover have "delivered s [?f] ?s'" using True pends body fd
      by (intro delivered_last [OF pend]) (simp_all add: feed_def)
    ultimately show ?thesis by simp
  next
    case False
    have "feed ?s'" using False pends mx keys body fd
      by (intro feed_push [OF fd pend, where b = b]) (simp_all add: push_pending_def)
    moreover have "delivered s [?f] ?s'" using False pends body fd
      by (intro delivered_push [OF pend, where b = b and d = d and dn = dn]) (simp_all add: feed_def)
    ultimately show ?thesis by simp
  qed
  have "wins_ok ?s'" using wins by (simp add: wins_finish)
  with c wi f show ?thesis unfolding round_ok_def by (auto intro!: exI [of _ "[?f]"])
qed

lemma send_reset_round:
  assumes "wins_ok s" "\<not> feed s"
  shows "wp (send_reset sid e) (round_ok s) (round_err s) (pop_pending s)"
  unfolding send_reset_def
proof (simp add: wp_simps, rule wp_emit_wire, goal_cases)
  case (1 out)
  let ?s' = "finish_stream sid ((pop_pending s)\<lparr>cn_out := out\<rparr>)"
  have "wire s [rst_frame sid e] ?s'" using 1 by (auto simp: wire_def pop_pending_def)
  moreover have "charged s [rst_frame sid e] ?s'"
    by (rule charged_finish) (simp add: charged_def pop_pending_def)
  ultimately show ?case using assms by (auto simp: round_ok_def intro!: wins_finish)
next
  case (2 out)
  then show ?case by (auto simp: round_err_def wire_def pop_pending_def intro!: exI [of _ "[]"])
qed

lemma send_data_round:
  assumes "wins_ok s" "cn_pending_responses s = p # rest"
    "map_of (cn_send_stream_windows s) (pn_stream_id p) = Some w"
    "int (length d) \<le> available w" "int (length d) \<le> available (cn_peer_connection_window s)"
    "length d \<le> unat (cn_peer_max_frame_size s)" "d \<noteq> [] \<or> dn"
    "feed s \<longrightarrow> (if dn then pending_bytes (pn_body p) = d else body_clean b \<and> pending_bytes (pn_body p) = d @ pending_bytes b)"
  shows "wp (send_data (p\<lparr>pn_body := b\<rparr>) d dn) (round_ok s) (round_err s) (pop_pending s)"
proof (rule wp_send_data)
  fix out :: sink and s1 :: "('a, 'b, 'c) h2_conn"
  assume "s1 = (if d = [] then pop_pending s
      else pay (pn_stream_id (p\<lparr>pn_body := b\<rparr>)) (length d) (pop_pending s))"
    "grown (cn_out (pop_pending s)) (frame_encode (data_frame (pn_stream_id (p\<lparr>pn_body := b\<rparr>)) d dn)) out"
  then show "round_ok s True ((if dn then finish_stream (pn_stream_id (p\<lparr>pn_body := b\<rparr>))
      else push_pending (p\<lparr>pn_body := b\<rparr>)) (s1\<lparr>cn_out := out\<rparr>))"
    using round_frame [OF assms(1-6,8), of s1 out] by (simp split: if_splits)
next
  fix out :: sink and s1 :: "('a, 'b, 'c) h2_conn"
  assume "grown (cn_out (pop_pending s)) [] out" "can_fail (cn_out (pop_pending s))"
  then show "round_err s InternalError (s1\<lparr>cn_out := out\<rparr>)"
    by (auto simp: round_err_def wire_def pop_pending_def intro!: exI [of _ "[]"])
qed (use assms in \<open>simp_all add: pop_pending_def wins_ok_def\<close>)

lemma schedule_one_round:
  assumes ok: "wins_ok s" and pend: "cn_pending_responses s = p # rest" and q: "0 < quota"
  shows "wp (schedule_one quota p) (round_ok s) (round_err s) (pop_pending s)"
proof (rule wp_schedule_one, goal_cases)
  case 1
  have "\<not> feed s" using 1 pend by (auto simp: feed_def pop_pending_def map_of_eq_None_iff)
  then show ?case using ok by (auto simp: round_ok_def pop_pending_def wire_def wins_ok_def charged_def intro!: exI [of _ "[]"])
next
  case (2 w)
  show ?case using round_push [OF ok pend, of "pn_body p"] pend by (simp add: feed_def)
next
  case (3 w amt b' r)
  have w: "map_of (cn_send_stream_windows s) (pn_stream_id p) = Some w" using 3(1) by (simp add: pop_pending_def)
  have amt: "length d \<le> unat (cn_peer_max_frame_size s)" "int (length d) \<le> available w"
    "int (length d) \<le> available (cn_peer_connection_window s)" if "length d \<le> amt" for d :: bytes
    using that 3 by (auto simp: chunk_amount_def pop_pending_def)
  have reads: "\<exists>x. r = Inr x \<and> (case x of
      ReadData c dn \<Rightarrow> (dn \<or> body_clean b') \<and> pending_bytes (pn_body p) = c @ pending_bytes b' \<and> length c \<le> amt
        \<and> (dn \<longrightarrow> pending_bytes b' = [])
    | ReadPending \<Rightarrow> body_clean b' \<and> pending_bytes b' = pending_bytes (pn_body p)
    | ReadDone \<Rightarrow> pending_bytes (pn_body p) = [])" if "feed s"
    using that pend q 3 by (intro read_chunk_delivers) (auto simp: feed_def chunk_amount_def pop_pending_def)
  show ?case
  proof (cases r)
    case (Inl e)
    then have "\<not> feed s" using reads by auto
    with send_reset_round [OF ok] Inl show ?thesis by simp
  next
    case (Inr x)
    show ?thesis
    proof (cases x)
      case (ReadData d dn)
      have len: "length d \<le> amt" using 3(5) Inr ReadData read_chunk_bound by blast
      show ?thesis
      proof (cases "d = [] \<and> \<not> dn")
        case True
        with Inr ReadData round_push [OF ok pend, of b'] reads show ?thesis by (auto simp: send_data_def wp_simps)
      next
        case False
        then have "wp (send_data (p\<lparr>pn_body := b'\<rparr>) d dn) (round_ok s) (round_err s) (pop_pending s)"
          using Inr ReadData reads amt [OF len] by (intro send_data_round [OF ok pend w]) auto
        with Inr ReadData show ?thesis by simp
      qed
    next
      case ReadPending
      with Inr round_push [OF ok pend, of b'] reads show ?thesis by auto
    next
      case ReadDone
      have "wp (send_data (p\<lparr>pn_body := b'\<rparr>) [] True) (round_ok s) (round_err s) (pop_pending s)"
        using 3 Inr ReadDone reads by (intro send_data_round [OF ok pend w]) (auto simp: pop_pending_def)
      with Inr ReadDone show ?thesis by simp
    qed
  qed
qed

lemma schedule_rounds_round:
  assumes "wins_ok s" "round_ok t b s" "0 < quota"
  shows "wp (schedule_rounds quota n b) (round_ok t) (round_err t) s"
  using assms
proof (induction n arbitrary: b s)
  case (Suc n)
  show ?case
  proof (cases "cn_pending_responses s")
    case (Cons p rest)
    have "wp (schedule_one quota p)
        (\<lambda>c. wp (schedule_rounds quota n (b \<or> c)) (round_ok t) (round_err t)) (round_err t) (pop_pending s)"
    proof (rule wp_weaken [OF schedule_one_round [OF Suc.prems(1) Cons Suc.prems(3)]])
      fix c s'
      assume c: "round_ok s c s'"
      show "wp (schedule_rounds quota n (b \<or> c)) (round_ok t) (round_err t) s'"
        using c round_ok_trans [OF Suc.prems(2) c] Suc.prems(3) by (intro Suc.IH) (simp_all add: round_ok_def)
    next
      fix e s'
      assume "round_err s e s'"
      then show "round_err t e s'" by (rule round_err_trans [OF Suc.prems(2)])
    qed
    with Cons show ?thesis by (simp add: wp_simps)
  qed (use Suc.prems in \<open>simp add: wp_simps\<close>)
qed (simp add: wp_simps)

lemma wp_flush_wire:
  "(\<And>out. grown (cn_out s) [] out \<Longrightarrow> Q () (s\<lparr>cn_out := out\<rparr>)) \<Longrightarrow>
   (\<And>out. grown (cn_out s) [] out \<Longrightarrow> can_fail (cn_out s) \<Longrightarrow> E InternalError (s\<lparr>cn_out := out\<rparr>)) \<Longrightarrow> wp flush_out Q E s"
  by (cases "write_all (cn_out s) []") (auto simp: wp_def flush_out_def write_out_def write_grown)

lemma round_out:
  assumes "grown (cn_out s') [] out"
  shows "round_ok s b s' \<Longrightarrow> round_ok s b (s'\<lparr>cn_out := out\<rparr>)"
    "round_ok s b s' \<Longrightarrow> can_fail (cn_out s') \<Longrightarrow> round_err s InternalError (s'\<lparr>cn_out := out\<rparr>)"
proof -
  have same: "wire s fs s' \<Longrightarrow> wire s fs (s'\<lparr>cn_out := out\<rparr>)" "charged s fs (s'\<lparr>cn_out := out\<rparr>) = charged s fs s'"
    "delivered s fs (s'\<lparr>cn_out := out\<rparr>) = delivered s fs s'" "feed (s'\<lparr>cn_out := out\<rparr>) = feed s'" for fs
    using grown_trans [OF _ assms]
    by (simp_all add: wire_def charged_def delivered_def feed_def queue_bytes_def pending_body_of_def)
  then show "round_ok s b s' \<Longrightarrow> round_ok s b (s'\<lparr>cn_out := out\<rparr>)" by (auto simp: round_ok_def)
  show "round_err s InternalError (s'\<lparr>cn_out := out\<rparr>)" if r: "round_ok s b s'" and c: "can_fail (cn_out s')"
  proof -
    obtain fs where w: "wire s fs s'" using r unfolding round_ok_def by blast
    then have "grown (cn_out s) (concat (map frame_encode fs)) (cn_out s')" by (simp add: wire_def)
    from can_fail_grown [OF this c] same(1) [OF w] show ?thesis by (auto simp: round_err_def)
  qed
qed

lemma schedule_round:
  assumes "wins_ok s"
  shows "wp schedule_pending_responses (round_ok s) (round_err s) s"
  unfolding schedule_pending_responses_def Let_def
  using assms round_out
  by (auto simp: wp_simps intro!: round_ok_refl wp_weaken [OF schedule_rounds_round [OF assms]] wp_flush_wire)

section \<open>The scheduler in the main loop\<close>

lemma reachable_wins:
  assumes "conn_reachable be peer cfg s0" "poll_pending_headers be s0 = (s, Inr b)"
  shows "wins_ok s" "distinct (map pn_stream_id (cn_pending_responses s))" "sending_ids s \<subseteq> tracked_ids s"
    "0 < unat (cn_peer_max_frame_size s)"
proof -
  have inv: "conn_inv s" using oks_run [OF poll_pending_inv _ assms(2)] reachable_inv [OF assms(1)] by simp
  then show "wins_ok s" "distinct (map pn_stream_id (cn_pending_responses s))" "sending_ids s \<subseteq> tracked_ids s"
    by (auto simp: conn_inv_def owned_def bounds_ok_def slots_def wins_ok_def)
  have "unat (16384 :: u32) \<le> unat (cn_peer_max_frame_size s)"
    using inv unfolding conn_inv_def owned_def bounds_ok_def word_le_nat_alt by simp
  then show "0 < unat (cn_peer_max_frame_size s)" by simp
qed

lemma reachable_feed:
  assumes "conn_reachable be peer cfg s0" "poll_pending_headers be s0 = (s, Inr b)"
    "list_all (\<lambda>p. body_clean (pn_body p)) (cn_pending_responses s)"
  shows "feed s"
  using reachable_wins(2-4) [OF assms(1,2)] assms(3) unfolding feed_def list_all_iff by blast

text \<open>
  C22. Responses obey the peer's flow control. When the main loop schedules bodies, the frames it
  writes carry no more data than the connection window allows, no more for any stream than that
  stream's window allows, and no frame exceeds the peer's frame size; the windows are charged for
  exactly the data sent; and the only error is that of a failed write.
\<close>

theorem schedule_within_windows:
  assumes "conn_reachable be peer cfg s0" "poll_pending_headers be s0 = (s, Inr False)"
    "schedule_pending_responses s = (s', r)"
  shows "\<exists>fs. wire s fs s' \<and> (case r of Inr sent \<Rightarrow> charged s fs s' \<and> (sent \<longleftrightarrow> fs \<noteq> []) | Inl e \<Rightarrow> e = InternalError \<and> can_fail (cn_out s))"
proof -
  have "wp schedule_pending_responses (round_ok s) (round_err s) s"
    by (rule schedule_round) (rule reachable_wins [OF assms(1,2)])
  with assms(3) show ?thesis
    by (cases r) (auto simp: wp_def round_ok_def round_err_def)
qed

text \<open>
  C23. Responses arrive complete and in order. When the bodies that wait are intact and the writes
  succeed, the data of the frames written for each stream is exactly the next part of its body,
  what remains is still waiting and intact, and a body leaves the queue only with a frame that
  ends its stream.
\<close>

theorem schedule_delivers:
  assumes "conn_reachable be peer cfg s0" "poll_pending_headers be s0 = (s, Inr False)"
    "schedule_pending_responses s = (s', Inr sent)"
    "list_all (\<lambda>p. body_clean (pn_body p)) (cn_pending_responses s)"
  shows "\<exists>fs. wire s fs s' \<and> delivered s fs s' \<and> list_all (\<lambda>p. body_clean (pn_body p)) (cn_pending_responses s')"
proof -
  note reach = reachable_wins [OF assms(1,2)]
  have feed: "feed s" by (rule reachable_feed [OF assms(1,2,4)])
  have "wp schedule_pending_responses (round_ok s) (round_err s) s" by (rule schedule_round) (rule reach)
  with assms(3) have "round_ok s sent s'" by (simp add: wp_def)
  with feed show ?thesis by (auto simp: round_ok_def feed_def list_all_iff)
qed

section \<open>A request and its answer\<close>

definition demo_get :: "(unit, unit, unit) h2_conn" where
  "demo_get = (conn_new server_config_default False () [] good_sink)
     \<lparr>cn_read_buffer := frame_encode (mk_frame 3 HeadersT (END_HEADERS OR END_STREAM) 1 (Headers [0x82, 0x86, 0x84] True True))\<rparr>"

definition hello :: "(unit, unit, unit) backend" where
  "hello = static_backend (with_body (response_new Ok) (str_bytes ''hi'') ''text/plain'')"

definition demo_answered :: "(unit, unit, unit) h2_conn" where
  "demo_answered = fst (main_turn hello None demo_get)"

lemma demo_get_turn:
  "(let (s, r) = main_turn hello None demo_get
    in (r, cn_pending_header_responses s, map (\<lambda>p. (pn_stream_id p, pn_body p)) (cn_pending_responses s),
        snd (schedule_pending_responses s))) = (None, [], [(1, BytesPending [0x68, 0x69] 0)], Inr True)"
  by code_simp

lemma demo_answered:
  "conn_reachable hello None server_config_default demo_answered"
  "poll_pending_headers hello demo_answered = (demo_answered, Inr False)"
  "queue_bytes demo_answered 1 = [0x68, 0x69]"
  "list_all (\<lambda>p. body_clean (pn_body p)) (cn_pending_responses demo_answered)"
  "snd (schedule_pending_responses demo_answered) = Inr True"
proof -
  have t: "main_turn hello None demo_get = (demo_answered, None)"
    and h: "cn_pending_header_responses demo_answered = []"
    and p: "map (\<lambda>p. (pn_stream_id p, pn_body p)) (cn_pending_responses demo_answered) = [(1, BytesPending [0x68, 0x69] 0)]"
    and r: "snd (schedule_pending_responses demo_answered) = Inr True"
    using demo_get_turn by (auto simp: demo_answered_def split: prod.splits)
  show "conn_reachable hello None server_config_default demo_answered"
    using t unfolding demo_get_def by (rule conn_reachable.turn [OF conn_reachable.start])
  show "poll_pending_headers hello demo_answered = (demo_answered, Inr False)"
    using h by (simp add: poll_pending_headers_def with_state_def and_then_def ret_def then_do_def when_do_def)
  show "queue_bytes demo_answered 1 = [0x68, 0x69]" using p by (simp add: queue_bytes_def pending_body_of_def)
  show "list_all (\<lambda>p. body_clean (pn_body p)) (cn_pending_responses demo_answered)"
    using p by (auto simp: list_all_iff map_eq_Cons_conv)
  show "snd (schedule_pending_responses demo_answered) = Inr True" by (rule r)
qed

theorem schedule_within_windows_witness:
  "\<exists>fs s'. schedule_pending_responses demo_answered = (s', Inr True)
     \<and> wire demo_answered fs s' \<and> charged demo_answered fs s' \<and> fs \<noteq> []"
proof -
  obtain s' where e: "schedule_pending_responses demo_answered = (s', Inr True)"
    using demo_answered(5) by (cases "schedule_pending_responses demo_answered") simp
  with schedule_within_windows [OF demo_answered(1,2) e] show ?thesis by auto
qed

theorem schedule_delivers_witness:
  "\<exists>fs s'. schedule_pending_responses demo_answered = (s', Inr True)
     \<and> [0x68, 0x69] = payload_for 1 fs @ queue_bytes s' 1"
proof -
  obtain s' where e: "schedule_pending_responses demo_answered = (s', Inr True)"
    using demo_answered(5) by (cases "schedule_pending_responses demo_answered") simp
  from schedule_delivers [OF demo_answered(1,2) e demo_answered(4)] obtain fs where "delivered demo_answered fs s'" by blast
  then have "queue_bytes demo_answered 1 = payload_for 1 fs @ queue_bytes s' 1" by (simp add: delivered_def)
  then have "[0x68, 0x69] = payload_for 1 fs @ queue_bytes s' 1" using demo_answered(3) by metis
  with e show ?thesis by blast
qed

section \<open>Header blocks in frames\<close>

text \<open>The block a receiver reassembles from HEADERS and CONTINUATION frames.\<close>

fun fragment :: "frame_payload \<Rightarrow> bytes" where
  "fragment (Headers b _ _) = b"
| "fragment (Continuation b _) = b"
| "fragment _ = []"

fun final_fragment :: "frame_payload \<Rightarrow> bool" where
  "final_fragment (Headers _ _ eh) = eh"
| "final_fragment (Continuation _ eh) = eh"
| "final_fragment _ = False"

lemma continuation_frames_block:
  "0 < mx \<Longrightarrow> concat (map (fragment \<circ> fr_payload) (continuation_frames sid mx bs)) = bs"
  by (induction sid mx bs rule: continuation_frames.induct)
     (subst continuation_frames.simps, simp add: Let_def mk_frame_def)

lemma continuation_frames_Nil [simp]: "continuation_frames sid mx [] = []"
  by (simp add: continuation_frames.simps)

lemma continuation_frames_ne: "0 < mx \<Longrightarrow> bs \<noteq> [] \<Longrightarrow> continuation_frames sid mx bs \<noteq> []"
  by (simp add: continuation_frames.simps [of sid mx bs] Let_def)

lemma continuation_frames_final:
  "0 < mx \<Longrightarrow> bs \<noteq> [] \<Longrightarrow>
   list_all (\<lambda>f. \<not> final_fragment (fr_payload f)) (butlast (continuation_frames sid mx bs))
   \<and> final_fragment (fr_payload (last (continuation_frames sid mx bs)))"
proof (induction sid mx bs rule: continuation_frames.induct)
  case (1 sid mx bs)
  show ?case
  proof (cases "drop mx bs = []")
    case True
    with 1 show ?thesis by (simp add: continuation_frames.simps [of sid mx bs] Let_def mk_frame_def)
  next
    case False
    with 1 continuation_frames_ne [OF 1(2) False, of sid] show ?thesis
      by (simp add: continuation_frames.simps [of sid mx bs] Let_def mk_frame_def)
  qed
qed

text \<open>A fragment of an admissible stream, with its flags in agreement with the payload.\<close>

lemma flag_simps [simp]:
  "flag_set END_HEADERS END_HEADERS" "\<not> flag_set 0 x" "\<not> flag_set END_HEADERS PADDED" "\<not> flag_set END_HEADERS PRIORITY"
  "\<not> flag_set END_HEADERS END_STREAM" "flag_set END_STREAM END_STREAM" "\<not> flag_set END_STREAM END_HEADERS"
  "\<not> flag_set END_STREAM PADDED" "\<not> flag_set END_STREAM PRIORITY"
  "flag_set (END_HEADERS OR END_STREAM) END_STREAM" "flag_set (END_HEADERS OR END_STREAM) END_HEADERS"
  "\<not> flag_set (END_HEADERS OR END_STREAM) PADDED" "\<not> flag_set (END_HEADERS OR END_STREAM) PRIORITY"
  by (simp_all add: flag_set_def END_HEADERS_def END_STREAM_def PADDED_def PRIORITY_def)

lemma continuation_frames_wf:
  assumes "0 < mx" "mx < 2 ^ 24" "sid \<noteq> 0" "sid AND 0x7FFFFFFF = sid"
  shows "list_all (\<lambda>f. frame_wf f \<and> length (fragment (fr_payload f)) \<le> mx
    \<and> fh_type (fr_header f) = ContinuationT \<and> fh_stream_id (fr_header f) = sid) (continuation_frames sid mx bs)"
  using assms
proof (induction sid mx bs rule: continuation_frames.induct)
  case (1 sid mx bs)
  then show ?case
    by (cases "bs = []") (simp_all add: continuation_frames.simps [of sid mx bs] Let_def mk_frame_def frame_wf_def)
qed



end
