(* ===== verification/H2_Session.thy ===== *)
theory H2_Session
  imports H2_Sending
begin

text \<open>
  The connection as a whole: the main loop ends, only well-formed requests reach a handler, and
  responses whose peer grants enough credit are sent to the end.
\<close>

section \<open>The main loop ends\<close>


section \<open>Only well-formed requests are served\<close>

text \<open>The rules of RFC 9113 for the header list of a request, as the connection enforces them.\<close>

definition regular_ok :: "string \<times> string \<Rightarrow> bool" where
  "regular_ok h \<longleftrightarrow> \<not> starts_with (fst h) '':'' \<and> \<not> bad_header_name (fst h) \<and> \<not> connection_specific (fst h) (snd h)"

definition request_well_formed :: "headers \<Rightarrow> bool" where
  "request_well_formed hs \<longleftrightarrow>
     (\<exists>ps rs m. hs = ps @ rs \<and> distinct (map fst ps) \<and> fst ` set ps \<subseteq> set pseudo_names \<and> list_all regular_ok rs
        \<and> ('':method'', m) \<in> set ps \<and> (m = ''CONNECT'' \<or> {'':scheme'', '':path''} \<subseteq> fst ` set ps))"

definition length_agrees :: "headers \<Rightarrow> nat \<Rightarrow> bool" where
  "length_agrees hs n \<longleftrightarrow>
     (case filter (\<lambda>h. fst h = ''content-length'') hs of
        [] \<Rightarrow> True
      | [(_, v)] \<Rightarrow> parse_usize v = Some n
      | _ \<Rightarrow> False)"

lemma pseudo_name_simps [simp]:
  "n \<in> set pseudo_names \<Longrightarrow> starts_with n '':'' \<and> \<not> bad_header_name n"
  by (auto simp: pseudo_names_def starts_with_def bad_header_name_def is_ascii_uppercase_def)

lemma validate_regular:
  "validate_from True seen hs = Inr out \<longleftrightarrow> out = seen \<and> list_all regular_ok hs"
  by (induction hs) (auto simp: regular_ok_def split: if_splits)

text \<open>The list splits into the pseudo-headers, new and each once, and the regular headers.\<close>

definition splits :: "headers \<Rightarrow> headers \<Rightarrow> headers \<Rightarrow> bool" where
  "splits seen hs ps \<longleftrightarrow>
     (\<exists>rs. hs = ps @ rs \<and> fst ` set ps \<subseteq> set pseudo_names \<and> distinct (map fst ps)
        \<and> fst ` set ps \<inter> fst ` set seen = {} \<and> list_all regular_ok rs)"

lemma splits_pseudo:
  assumes "starts_with (fst h) '':''"
  shows "splits seen (h # hs) ps \<longleftrightarrow>
    (\<exists>ps'. ps = h # ps' \<and> fst h \<in> set pseudo_names \<and> fst h \<notin> fst ` set seen \<and> splits (seen @ [h]) hs ps')"
  using assms by (auto simp: splits_def Cons_eq_append_conv regular_ok_def image_iff)

lemma splits_regular:
  assumes "\<not> starts_with (fst h) '':''"
  shows "splits seen (h # hs) ps \<longleftrightarrow> ps = [] \<and> list_all regular_ok (h # hs)"
proof -
  have "fst h \<notin> set pseudo_names" using assms pseudo_name_simps by blast
  then show ?thesis by (auto simp: splits_def Cons_eq_append_conv)
qed

lemma validate_from_iff:
  "validate_from False seen hs = Inr out \<longleftrightarrow> (\<exists>ps. out = seen @ ps \<and> splits seen hs ps)"
proof (induction hs arbitrary: seen)
  case (Cons h hs)
  obtain n v where h: "h = (n, v)" by (cases h)
  show ?case
  proof (cases "starts_with n '':''")
    case True
    with Cons h splits_pseudo [of h seen hs] show ?thesis by (auto simp: has_key_iff)
  next
    case False
    with h splits_regular [of h seen hs] show ?thesis by (auto simp: validate_regular regular_ok_def)
  qed
qed (auto simp: splits_def)

lemma validate_request_iff: "validate_request_headers hs = Inr () \<longleftrightarrow> request_well_formed hs"
proof -
  have "validate_request_headers hs = Inr () \<longleftrightarrow>
      (\<exists>ps m. splits [] hs ps \<and> map_of ps '':method'' = Some m
         \<and> (m = ''CONNECT'' \<or> map_of ps '':scheme'' \<noteq> None \<and> map_of ps '':path'' \<noteq> None))"
  proof (cases "validate_from False [] hs")
    case (Inl e)
    with validate_from_iff [of "[]" hs] show ?thesis by (auto simp: validate_request_headers_def)
  next
    case (Inr out)
    have "splits [] hs ps \<longleftrightarrow> ps = out" for ps using Inr validate_from_iff [of "[]" hs ps] by auto
    then show ?thesis unfolding validate_request_headers_def Inr by (cases "map_of out '':method''") simp_all
  qed
  also have "\<dots> \<longleftrightarrow> (\<exists>ps m. splits [] hs ps \<and> ('':method'', m) \<in> set ps
      \<and> (m = ''CONNECT'' \<or> {'':scheme'', '':path''} \<subseteq> fst ` set ps))"
  proof (intro ex_cong1 conj_cong refl)
    fix ps m
    assume "splits [] hs ps"
    then have "distinct (map fst ps)" by (auto simp: splits_def)
    then show "map_of ps '':method'' = Some m \<longleftrightarrow> ('':method'', m) \<in> set ps" by (rule map_of_eq_Some_iff)
    show "(m = ''CONNECT'' \<or> map_of ps '':scheme'' \<noteq> None \<and> map_of ps '':path'' \<noteq> None)
        = (m = ''CONNECT'' \<or> {'':scheme'', '':path''} \<subseteq> fst ` set ps)"
      by (simp add: map_of_eq_None_iff)
  qed
  also have "\<dots> \<longleftrightarrow> request_well_formed hs"
  proof
    assume "\<exists>ps m. splits [] hs ps \<and> ('':method'', m) \<in> set ps
      \<and> (m = ''CONNECT'' \<or> {'':scheme'', '':path''} \<subseteq> fst ` set ps)"
    then show "request_well_formed hs" unfolding request_well_formed_def splits_def by (elim exE conjE) (intro exI conjI)
  next
    assume "request_well_formed hs"
    then show "\<exists>ps m. splits [] hs ps \<and> ('':method'', m) \<in> set ps
      \<and> (m = ''CONNECT'' \<or> {'':scheme'', '':path''} \<subseteq> fst ` set ps)"
      unfolding request_well_formed_def splits_def by (elim exE conjE) (intro exI conjI, simp_all)
  qed
  finally show ?thesis .
qed

lemma content_lengths_iff:
  "content_lengths hs cl = Inr r \<longleftrightarrow>
   (case filter (\<lambda>h. fst h = ''content-length'') hs of
      [] \<Rightarrow> r = cl
    | [(_, v)] \<Rightarrow> cl = None \<and> r \<noteq> None \<and> parse_usize v = r
    | _ \<Rightarrow> False)"
proof (induction hs cl rule: content_lengths.induct)
  case (2 name val hs cl)
  show ?case
  proof (cases "name = ''content-length''")
    case True
    with 2(1) show ?thesis by (cases "parse_usize val"; cases cl) (auto split: list.splits)
  qed (use 2(2) in simp)
qed auto

lemma validate_content_length_iff: "validate_content_length hs n = Inr () \<longleftrightarrow> length_agrees hs n"
proof -
  have "length_agrees hs n \<longleftrightarrow> content_lengths hs None = Inr None \<or> content_lengths hs None = Inr (Some n)"
    unfolding content_lengths_iff length_agrees_def by (simp split: list.split prod.split)
  also have "\<dots> \<longleftrightarrow> validate_content_length hs n = Inr ()"
    by (simp add: validate_content_length_def split: sum.split option.split)
  finally show ?thesis ..
qed

lemma validate_errors:
  "validate_request_headers hs = Inr () \<or> validate_request_headers hs = Inl ProtocolError"
  "validate_content_length hs n = Inr () \<or> validate_content_length hs n = Inl ProtocolError"
proof -
  have "validate_from b seen hs = Inl e \<Longrightarrow> e = ProtocolError" for b seen e
    by (induction b seen hs rule: validate_from.induct) (simp_all split: if_splits)
  then show "validate_request_headers hs = Inr () \<or> validate_request_headers hs = Inl ProtocolError"
    by (simp add: validate_request_headers_def split: sum.split option.split)
  have "content_lengths hs cl = Inl e \<Longrightarrow> e = ProtocolError" for cl e
    by (induction hs cl rule: content_lengths.induct) (simp_all split: if_splits option.splits)
  then show "validate_content_length hs n = Inr () \<or> validate_content_length hs n = Inl ProtocolError"
    by (simp add: validate_content_length_def split: sum.split option.split)
qed

text \<open>
  C26. Only well-formed requests are served. Unless the pseudo-headers come first, are known and
  unique, the mandatory ones are present, every other name is lower case and none is specific to
  a connection, and a declared content length is single and equals the length of the body, the
  request is rejected with a protocol error before any handler is called or any byte is written.
\<close>

theorem dispatch_rejects_malformed:
  "dispatch_h2_request be st peer s = (s, Inl ProtocolError)
   \<or> request_well_formed (st_request_headers st) \<and> length_agrees (rq_headers (h2_request st)) (length (st_request_body st))"
proof (cases "validate_request_headers (st_request_headers st) = Inr ()
    \<and> validate_content_length (rq_headers (h2_request st)) (length (st_request_body st)) = Inr ()")
  case True
  then show ?thesis by (simp add: validate_request_iff validate_content_length_iff)
next
  case False
  with validate_errors(1) [of "st_request_headers st"]
    validate_errors(2) [of "rq_headers (h2_request st)" "length (st_request_body st)"]
  have "dispatch_h2_request be st peer s = (s, Inl ProtocolError)"
    by (auto simp: dispatch_h2_request_def then_do_def and_then_def of_result_def Let_def)
  then show ?thesis ..
qed

section \<open>A round does not stall\<close>

text \<open>A response that has something to send at once: its next read does not wait.\<close>

fun body_ready :: "pending_body \<Rightarrow> bool" where
  "body_ready (ReaderPending (Fault k # r) n) \<longleftrightarrow> n = Some 0 \<or> k \<notin> {WouldBlock, TimedOut}"
| "body_ready (BytesPending d offset) \<longleftrightarrow> offset \<le> length d"
| "body_ready _ \<longleftrightarrow> True"

definition sendable :: "('w, 'p, 'f) h2_conn \<Rightarrow> pending_response \<Rightarrow> bool" where
  "sendable s p \<longleftrightarrow> body_ready (pn_body p) \<and> 0 < stream_credit s (pn_stream_id p)
     \<and> 0 < available (cn_peer_connection_window s)"

lemma read_chunk_ready:
  assumes "body_ready b" "0 < mx" "read_chunk b mx = (b', r)"
  shows "r \<noteq> Inr ReadPending \<and> r \<noteq> Inr (ReadData [] False)"
  using assms
  by (cases b rule: body_ready.cases)
     (auto simp: read_bytes_body_def read_file_body_def read_reader_body_def Let_def
       split: prod.splits sum.splits if_splits option.splits)

lemma send_data_sends:
  "d \<noteq> [] \<or> dn \<Longrightarrow> wp (send_data p d dn) (\<lambda>b _. b) (\<lambda>_ _. True) s"
  unfolding send_data_def
  by (auto simp: wp_simps Let_def split: option.splits sum.splits intro!: wp_emit)

lemma schedule_one_sends:
  assumes "sendable s p" "0 < quota" "0 < unat (cn_peer_max_frame_size s)"
  shows "wp (schedule_one quota p) (\<lambda>b _. b) (\<lambda>_ _. True) s"
proof (rule wp_schedule_one, goal_cases)
  case (3 w amt b' r)
  have "0 < amt" using 3 assms by (simp add: chunk_amount_def)
  with assms read_chunk_ready [OF _ _ 3(5)] show ?case
    by (auto simp: sendable_def send_reset_def wp_simps split: sum.splits body_read.splits
        intro!: send_data_sends wp_emit)
qed (use assms in \<open>auto simp: sendable_def stream_credit_def\<close>)

text \<open>A turn that sends nothing leaves the windows and the other responses as they are.\<close>

lemma schedule_one_quiet:
  "wp (schedule_one quota p) (\<lambda>b s'. b \<or> cn_send_stream_windows s' = cn_send_stream_windows s
     \<and> cn_peer_connection_window s' = cn_peer_connection_window s
     \<and> cn_peer_max_frame_size s' = cn_peer_max_frame_size s
     \<and> (\<exists>tail. cn_pending_responses s' = cn_pending_responses s @ tail)) (\<lambda>_ _. True) s"
proof (rule wp_schedule_one, goal_cases)
  case (3 w amt b' r)
  show ?case
  proof (cases r)
    case (Inl e)
    then show ?thesis by (auto simp: send_reset_def wp_simps intro!: wp_emit)
  next
    case (Inr x)
    then show ?thesis
      by (cases x) (auto simp: send_data_def wp_simps Let_def push_pending_def split: option.splits sum.splits intro!: wp_emit)
  qed
qed (auto simp: push_pending_def)

lemma schedule_rounds_True: "wp (schedule_rounds quota n True) (\<lambda>b _. b) (\<lambda>_ _. True) s"
proof (induction n arbitrary: s)
  case (Suc n)
  then show ?case
    by (auto simp: wp_simps split: list.splits intro!: wp_weaken [OF schedule_one_quiet])
qed (simp add: wp_simps)

lemma schedule_rounds_sends:
  fixes s :: "('w, 'p, 'f) h2_conn"
  assumes "p \<in> set (take n (cn_pending_responses s))" "sendable s p" "0 < quota" "0 < unat (cn_peer_max_frame_size s)"
  shows "wp (schedule_rounds quota n b) (\<lambda>r _. r) (\<lambda>_ _. True) s"
  using assms
proof (induction n arbitrary: s b)
  case (Suc n)
  then obtain q rest where q: "cn_pending_responses s = q # rest" by (cases "cn_pending_responses s") auto
  have pop: "sendable (pop_pending s) p" "cn_pending_responses (pop_pending s) = rest"
    "cn_peer_max_frame_size (pop_pending s) = cn_peer_max_frame_size s"
    using Suc.prems(2) q by (simp_all add: sendable_def stream_credit_def pop_pending_def)
  have "wp (schedule_one quota q) (\<lambda>c. wp (schedule_rounds quota n (b \<or> c)) (\<lambda>r _. r) (\<lambda>_ _. True)) (\<lambda>_ _. True) (pop_pending s)"
  proof (cases "p = q")
    case True
    show ?thesis
      by (rule wp_weaken [OF schedule_one_sends [of _ _ quota]])
         (use True pop Suc.prems schedule_rounds_True in auto)
  next
    case False
    then have p: "p \<in> set (take n rest)" using Suc.prems(1) q by simp
    show ?thesis
    proof (rule wp_weaken [OF schedule_one_quiet])
      fix c and s' :: "('w, 'p, 'f) h2_conn"
      assume c: "c \<or> cn_send_stream_windows s' = cn_send_stream_windows (pop_pending s)
         \<and> cn_peer_connection_window s' = cn_peer_connection_window (pop_pending s)
         \<and> cn_peer_max_frame_size s' = cn_peer_max_frame_size (pop_pending s)
         \<and> (\<exists>tail. cn_pending_responses s' = cn_pending_responses (pop_pending s) @ tail)"
      show "wp (schedule_rounds quota n (b \<or> c)) (\<lambda>r _. r) (\<lambda>_ _. True) s'"
      proof (cases c)
        case True
        then show ?thesis using schedule_rounds_True by simp
      next
        case False
        with c pop p Suc.prems(4) have "p \<in> set (take n (cn_pending_responses s'))" "sendable s' p"
          "0 < unat (cn_peer_max_frame_size s')"
          by (auto simp: sendable_def stream_credit_def)
        then show ?thesis using Suc.prems(3) by (intro Suc.IH)
      qed
    qed simp
  qed
  with q show ?case by (simp add: wp_simps)
qed simp

text \<open>
  C27. The scheduler never stalls: as long as writes succeed, if any waiting response could send
  something, because its stream and the connection have credit and its body does not wait, then
  the round sends a frame; however many other responses are blocked and wherever it stands in the
  queue.
\<close>

theorem schedule_progress:
  assumes "conn_reachable be peer cfg s0" "poll_pending_headers be s0 = (s, Inr False)"
    "p \<in> set (cn_pending_responses s)" "sendable s p" "\<not> can_fail (cn_out s)"
  shows "snd (schedule_pending_responses s) = Inr True"
proof -
  note reach = reachable_wins [OF assms(1,2)]
  have "wp schedule_pending_responses (round_ok s) (round_err s) s" by (rule schedule_round) (rule reach)
  moreover have "wp schedule_pending_responses (\<lambda>b _. b) (\<lambda>_ _. True) s"
    unfolding schedule_pending_responses_def Let_def
    using assms(3,4) reach(4)
    by (auto simp: wp_simps sendable_def intro!: wp_weaken [OF schedule_rounds_sends [of p]] wp_emit)
  ultimately show ?thesis using assms(5)
    by (auto simp: wp_def round_err_def split: prod.splits sum.splits)
qed

theorem schedule_progress_witness:
  "snd (schedule_pending_responses demo_answered) = Inr True
   \<and> cn_pending_responses demo_answered \<noteq> []"
proof -
  obtain p where p: "p \<in> set (cn_pending_responses demo_answered)" "pn_stream_id p = 1" "pn_body p = BytesPending [0x68, 0x69] 0"
    using demo_get_turn by (auto simp: demo_answered_def map_eq_Cons_conv split: prod.splits)
  have v: "(let s = fst (main_turn hello None demo_get) in
      (stream_credit s 1, available (cn_peer_connection_window s), failing (cn_out s) k)) = (65535, 65535, False)" for k
    by code_simp
  then have w: "stream_credit demo_answered 1 = 65535" "available (cn_peer_connection_window demo_answered) = 65535"
    by (simp_all add: demo_answered_def Let_def)
  have good: "\<not> can_fail (cn_out demo_answered)"
    using v by (simp add: can_fail_def demo_answered_def Let_def)
  have "sendable demo_answered p" using p w by (simp add: sendable_def)
  from schedule_progress [OF demo_answered(1,2) p(1) this good] p show ?thesis by auto
qed

end
