(* ===== verification/Telemetry.thy ===== *)
theory Telemetry
  imports Prelude
begin

text \<open>
  Counters and log lines (\<open>src/src/server/metrics.rs\<close> and \<open>src/src/server/logging.rs\<close>). The
  counters are \<open>AtomicU64\<close>, so they wrap; every operation on one of them is atomic. The
  destinations of log lines are the list of writes that were made.
\<close>

section \<open>Counters\<close>

record metrics =
  REQUESTS_TOTAL :: u64
  REQUESTS_ACTIVE :: u64
  RESPONSE_BYTES :: u64
  STATUS_4XX :: u64
  STATUS_5XX :: u64
  PROXY_REQUESTS :: u64
  FASTCGI_REQUESTS :: u64

definition metrics_zero :: metrics where
  "metrics_zero = \<lparr>REQUESTS_TOTAL = 0, REQUESTS_ACTIVE = 0, RESPONSE_BYTES = 0, STATUS_4XX = 0, STATUS_5XX = 0,
     PROXY_REQUESTS = 0, FASTCGI_REQUESTS = 0\<rparr>"

definition guard_begin :: "metrics \<Rightarrow> metrics" where
  "guard_begin m = m\<lparr>REQUESTS_ACTIVE := REQUESTS_ACTIVE m + 1\<rparr>"

definition guard_drop :: "metrics \<Rightarrow> metrics" where
  "guard_drop m = m\<lparr>REQUESTS_ACTIVE := REQUESTS_ACTIVE m - 1\<rparr>"

definition record_response :: "nat \<Rightarrow> nat \<Rightarrow> metrics \<Rightarrow> metrics" where
  "record_response status n m =
     (let m = m\<lparr>REQUESTS_TOTAL := REQUESTS_TOTAL m + 1, RESPONSE_BYTES := RESPONSE_BYTES m + of_nat n\<rparr> in
      if 400 \<le> status \<and> status < 500 then m\<lparr>STATUS_4XX := STATUS_4XX m + 1\<rparr>
      else if 500 \<le> status \<and> status < 600 then m\<lparr>STATUS_5XX := STATUS_5XX m + 1\<rparr>
      else m)"

definition record_proxy :: "metrics \<Rightarrow> metrics" where
  "record_proxy m = m\<lparr>PROXY_REQUESTS := PROXY_REQUESTS m + 1\<rparr>"

definition record_fastcgi :: "metrics \<Rightarrow> metrics" where
  "record_fastcgi m = m\<lparr>FASTCGI_REQUESTS := FASTCGI_REQUESTS m + 1\<rparr>"

definition prometheus_entry :: "string \<Rightarrow> string \<Rightarrow> u64 \<Rightarrow> string" where
  "prometheus_entry name kind v =
     ''# TYPE '' @ name @ '' '' @ kind @ [LF] @ name @ '' '' @ show_nat (unat v) @ [LF]"

definition render_prometheus :: "metrics \<Rightarrow> string" where
  "render_prometheus m =
     prometheus_entry ''veysrs_requests_total'' ''counter'' (REQUESTS_TOTAL m)
     @ prometheus_entry ''veysrs_requests_active'' ''gauge'' (REQUESTS_ACTIVE m)
     @ prometheus_entry ''veysrs_response_bytes'' ''counter'' (RESPONSE_BYTES m)
     @ prometheus_entry ''veysrs_4xx_total'' ''counter'' (STATUS_4XX m)
     @ prometheus_entry ''veysrs_5xx_total'' ''counter'' (STATUS_5XX m)
     @ prometheus_entry ''veysrs_proxy_requests_total'' ''counter'' (PROXY_REQUESTS m)
     @ prometheus_entry ''veysrs_fastcgi_requests_total'' ''counter'' (FASTCGI_REQUESTS m)"

section \<open>Log lines\<close>

text \<open>
  \<open>str::chars\<close> on a UTF-8 string: an ASCII byte stands alone, any other leading byte is followed by
  its continuation bytes.
\<close>

definition is_cont :: "char \<Rightarrow> bool" where
  "is_cont c \<longleftrightarrow> 0x80 \<le> code c \<and> code c < 0xC0"

function chars :: "string \<Rightarrow> string list" where
  "chars [] = []"
| "chars (c # s) =
     (if code c < 0x80 then [c] # chars s
      else (c # takeWhile is_cont s) # chars (dropWhile is_cont s))"
  by pat_completeness auto
termination
  by (relation "measure length") (auto simp: le_imp_less_Suc length_dropWhile_le)

definition LOG_LIMIT :: nat where "LOG_LIMIT = 16 * 1024"

definition blank_break :: "string \<Rightarrow> string" where
  "blank_break ch = (if ch = [CR] \<or> ch = [LF] then '' '' else ch)"

definition sanitize_line :: "string \<Rightarrow> string" where
  "sanitize_line line =
     (let had_newline = ends_with line [LF];
          sanitized = map blank_break (take LOG_LIMIT (chars line));
          sanitized = (if had_newline then butlast sanitized else sanitized)
      in concat sanitized @ [LF])"

text \<open>
  The texts handed to \<open>write_all\<close>, in order, with the destination of each. \<open>fails\<close> tells which
  destinations cannot be opened or written; a failure on the standard error is ignored.
\<close>

type_synonym log_writes = "(string \<times> string) list"

definition write_line :: "(string \<Rightarrow> bool) \<Rightarrow> string \<Rightarrow> string \<Rightarrow> log_writes" where
  "write_line fails destination line =
     (destination, sanitize_line line)
     # (if fails destination \<and> destination \<noteq> ''stderr''
        then [(''stderr'', ''[ERROR] configured log destination unavailable'' @ [LF])] else [])"

definition log_error :: "(string \<Rightarrow> bool) \<Rightarrow> string \<Rightarrow> string \<Rightarrow> log_writes" where
  "log_error fails destination message = write_line fails destination (''[ERROR] '' @ message)"

definition log_warn :: "(string \<Rightarrow> bool) \<Rightarrow> string \<Rightarrow> string \<Rightarrow> log_writes" where
  "log_warn fails destination message = write_line fails destination (''[WARN] '' @ message)"

section \<open>Counters count\<close>

datatype metric_event = Begin_Request | Drop_Request | Response nat nat | Proxied | Fastcgi_Served

fun metric_step :: "metric_event \<Rightarrow> metrics \<Rightarrow> metrics" where
  "metric_step Begin_Request m = guard_begin m"
| "metric_step Drop_Request m = guard_drop m"
| "metric_step (Response st n) m = record_response st n m"
| "metric_step Proxied m = record_proxy m"
| "metric_step Fastcgi_Served m = record_fastcgi m"

fun is_response :: "metric_event \<Rightarrow> bool" where
  "is_response (Response st n) \<longleftrightarrow> True"
| "is_response _ \<longleftrightarrow> False"

fun response_size :: "metric_event \<Rightarrow> nat" where
  "response_size (Response st n) = n"
| "response_size _ = 0"

fun client_error :: "metric_event \<Rightarrow> bool" where
  "client_error (Response st n) \<longleftrightarrow> 400 \<le> st \<and> st < 500"
| "client_error _ \<longleftrightarrow> False"

fun server_error :: "metric_event \<Rightarrow> bool" where
  "server_error (Response st n) \<longleftrightarrow> 500 \<le> st \<and> st < 600"
| "server_error _ \<longleftrightarrow> False"

abbreviation tally :: "('a \<Rightarrow> bool) \<Rightarrow> 'a list \<Rightarrow> nat" where
  "tally P es \<equiv> length (filter P es)"

lemma metrics_fold:
  "let m' = fold metric_step es m in
     REQUESTS_TOTAL m' = REQUESTS_TOTAL m + of_nat (tally is_response es)
   \<and> RESPONSE_BYTES m' = RESPONSE_BYTES m + of_nat (sum_list (map response_size es))
   \<and> STATUS_4XX m' = STATUS_4XX m + of_nat (tally client_error es)
   \<and> STATUS_5XX m' = STATUS_5XX m + of_nat (tally server_error es)
   \<and> REQUESTS_ACTIVE m' + of_nat (tally (\<lambda>e. e = Drop_Request) es)
       = REQUESTS_ACTIVE m + of_nat (tally (\<lambda>e. e = Begin_Request) es)"
proof (induction es arbitrary: m)
  case Nil
  then show ?case by simp
next
  case (Cons e es)
  show ?case using Cons [of "metric_step e m"]
    by (cases e)
       (auto simp: Let_def guard_begin_def guard_drop_def record_response_def record_proxy_def record_fastcgi_def algebra_simps)
qed

text \<open>
  After any sequence of events the exported counters are the numbers of responses, of response
  bytes, of client errors and of server errors, and the number of requests begun and not yet dropped,
  each modulo \<open>2^64\<close>.
\<close>

lemma counters_exact:
  "let m = fold metric_step es metrics_zero in
     unat (REQUESTS_TOTAL m) = tally is_response es mod 2 ^ 64
   \<and> unat (RESPONSE_BYTES m) = sum_list (map response_size es) mod 2 ^ 64
   \<and> unat (STATUS_4XX m) = tally client_error es mod 2 ^ 64
   \<and> unat (STATUS_5XX m) = tally server_error es mod 2 ^ 64
   \<and> uint (REQUESTS_ACTIVE m)
       = (int (tally (\<lambda>e. e = Begin_Request) es) - int (tally (\<lambda>e. e = Drop_Request) es)) mod 2 ^ 64"
proof -
  define m where "m = fold metric_step es metrics_zero"
  have w: "unat (of_nat n :: u64) = n mod 2 ^ 64" for n by (simp add: unsigned_of_nat take_bit_nat_def)
  have m: "REQUESTS_TOTAL m = of_nat (tally is_response es)"
    "RESPONSE_BYTES m = of_nat (sum_list (map response_size es))"
    "STATUS_4XX m = of_nat (tally client_error es)" "STATUS_5XX m = of_nat (tally server_error es)"
    "REQUESTS_ACTIVE m + of_nat (tally (\<lambda>e. e = Drop_Request) es) = of_nat (tally (\<lambda>e. e = Begin_Request) es)"
    using metrics_fold [of es metrics_zero] by (simp_all add: Let_def m_def metrics_zero_def)
  have "REQUESTS_ACTIVE m = word_of_int
      (int (tally (\<lambda>e. e = Begin_Request) es) - int (tally (\<lambda>e. e = Drop_Request) es))"
    using m(5) by (simp add: algebra_simps eq_diff_eq)
  then have "uint (REQUESTS_ACTIVE m)
      = (int (tally (\<lambda>e. e = Begin_Request) es) - int (tally (\<lambda>e. e = Drop_Request) es)) mod 2 ^ 64"
    by (simp only: uint_word_of_int len_of_numeral_defs) simp
  with m(1-4) show ?thesis unfolding Let_def m_def [symmetric] by (simp only: w)
qed

section \<open>One line per message\<close>

lemma chars_ne: "ch \<in> set (chars s) \<Longrightarrow> ch \<noteq> []"
  by (induction s rule: chars.induct) (auto split: if_splits)

lemma concat_chars: "concat (chars s) = s"
  by (induction s rule: chars.induct) auto

lemma chars_clean:
  "ch \<in> set (chars s) \<Longrightarrow> ch = [CR] \<or> ch = [LF] \<or> CR \<notin> set ch \<and> LF \<notin> set ch"
  by (induction s rule: chars.induct) (auto simp: is_cont_def dest!: set_takeWhileD split: if_splits)

lemma blank_break_clean: "ch \<in> set (chars s) \<Longrightarrow> CR \<notin> set (blank_break ch) \<and> LF \<notin> set (blank_break ch)"
  by (drule chars_clean) (auto simp: blank_break_def)

lemma sanitize_line_single:
  "\<exists>body. sanitize_line line = body @ [LF] \<and> CR \<notin> set body \<and> LF \<notin> set body"
  by (auto simp: sanitize_line_def Let_def dest!: in_set_butlastD in_set_takeD blank_break_clean)

lemma sanitize_line_clean:
  assumes "CR \<notin> set s" "LF \<notin> set s" "length (chars s) \<le> LOG_LIMIT"
  shows "sanitize_line s = s @ [LF]"
proof -
  have "blank_break ch = ch" if "ch \<in> set (chars s)" for ch
  proof -
    have "set ch \<subseteq> set s" using that by (subst concat_chars [symmetric]) auto
    with assms(1,2) show ?thesis by (auto simp: blank_break_def)
  qed
  then have "map blank_break (chars s) = chars s" by (simp add: map_idI)
  moreover have "\<not> ends_with s [LF]" using assms(2) by (auto simp: ends_with_def suffix_def)
  ultimately show ?thesis using assms(3) by (simp add: sanitize_line_def concat_chars)
qed

text \<open>
  C31. Whatever a message contains, each text handed to a log destination is exactly one line: it ends
  in a line feed and has no other line break, so a client cannot forge log entries; and a message
  of at most 16384 characters without line breaks is written unchanged.
\<close>

theorem log_lines_single:
  "list_all (\<lambda>(d, text). \<exists>body. text = body @ [LF] \<and> CR \<notin> set body \<and> LF \<notin> set body)
     (write_line fails destination line)
   \<and> (CR \<notin> set line \<and> LF \<notin> set line \<and> length (chars line) \<le> LOG_LIMIT
        \<longrightarrow> hd (write_line fails destination line) = (destination, line @ [LF]))"
  using sanitize_line_single [of line] sanitize_line_clean [of line] by (auto simp: write_line_def)

theorem log_lines_single_witness:
  "hd (write_line (\<lambda>d. True) ''/var/log/veys.log'' ''GET /index.html 200'')
     = (''/var/log/veys.log'', ''GET /index.html 200'' @ [LF])"
proof -
  have "length (chars ''GET /index.html 200'') \<le> LOG_LIMIT" by code_simp
  then show ?thesis
    using log_lines_single [where line = "''GET /index.html 200''" and fails = "\<lambda>d. True"
        and destination = "''/var/log/veys.log''"] by simp
qed

end
