(* ===== verification/Thread_Pool.thy ===== *)
theory Thread_Pool
  imports Telemetry "HOL-Library.Multiset"
begin

text \<open>
  The worker pool (\<open>src/src/server/threadpool.rs\<close>). The channel is a queue, a worker is where its
  loop stands, and the mutex around the receiver is held by the worker that stands in \<open>recv\<close>. A
  schedule picks the next worker or caller; \<open>panics\<close> tells which jobs panic, and a job that is
  running may finish at any later step. The lists \<open>accepted\<close>, \<open>started\<close> and \<open>finished\<close> record the
  history of jobs.
\<close>

section \<open>The pool\<close>

datatype 'j worker_state = Waiting | Receiving | Running 'j | Exited

record 'j thread_pool =
  workers :: "'j worker_state list"
  sender :: bool
  queue :: "'j list"
  poisoned :: bool
  error_log :: "string option"
  joined :: nat
  accepted :: "'j list"
  started :: "'j list"
  finished :: "'j list"
  pool_log :: log_writes

definition with_error_log :: "nat \<Rightarrow> string option \<Rightarrow> string + 'j thread_pool" where
  "with_error_log n destination =
     (if n = 0 then Inl ''ThreadPool size must be greater than 0''
      else Inr \<lparr>workers = replicate n Waiting, sender = True, queue = [], poisoned = False, error_log = destination,
                joined = 0, accepted = [], started = [], finished = [], pool_log = []\<rparr>)"

definition pool_new :: "nat \<Rightarrow> string + 'j thread_pool" where
  "pool_new n = with_error_log n None"

definition new_with_error_log :: "nat \<Rightarrow> string \<Rightarrow> string + 'j thread_pool" where
  "new_with_error_log n destination = with_error_log n (Some destination)"

text \<open>Sending fails when every receiver is gone, that is when every worker has left its loop.\<close>

definition execute :: "'j \<Rightarrow> 'j thread_pool \<Rightarrow> string + 'j thread_pool" where
  "execute job p =
     (if sender p
      then if list_all (\<lambda>w. w = Exited) (workers p) then Inl ''Failed to send job to ThreadPool channel''
           else Inr (p\<lparr>queue := queue p @ [job], accepted := accepted p @ [job]\<rparr>)
      else Inl ''ThreadPool is shut down'')"

definition panic_log :: "(string \<Rightarrow> bool) \<Rightarrow> nat \<Rightarrow> string option \<Rightarrow> log_writes" where
  "panic_log fails i destination =
     (let message = ''ThreadPool worker '' @ show_nat i @ '' caught job panic'' in
      case destination of
        Some d \<Rightarrow> log_error fails d message
      | None \<Rightarrow> [(''stderr'', ''[ERROR] '' @ message @ [LF])])"

text \<open>One step of the loop of worker \<open>i\<close>; \<open>None\<close> when it is blocked or has left the loop.\<close>

definition worker_step :: "('j \<Rightarrow> bool) \<Rightarrow> (string \<Rightarrow> bool) \<Rightarrow> nat \<Rightarrow> 'j thread_pool \<Rightarrow> 'j thread_pool option" where
  "worker_step panics fails i p =
     (if i \<ge> length (workers p) then None
      else case workers p ! i of
        Waiting \<Rightarrow>
          (if poisoned p then Some (p\<lparr>workers := (workers p)[i := Exited]\<rparr>)
           else if Receiving \<in> set (workers p) then None
           else Some (p\<lparr>workers := (workers p)[i := Receiving]\<rparr>))
      | Receiving \<Rightarrow>
          (case queue p of
             job # rest \<Rightarrow>
               Some (p\<lparr>workers := (workers p)[i := Running job], queue := rest, started := started p @ [job]\<rparr>)
           | [] \<Rightarrow> if sender p then None else Some (p\<lparr>workers := (workers p)[i := Exited]\<rparr>))
      | Running job \<Rightarrow>
          Some (p\<lparr>workers := (workers p)[i := Waiting], finished := finished p @ [job],
                  pool_log := pool_log p @ (if panics job then panic_log fails i (error_log p) else [])\<rparr>)
      | Exited \<Rightarrow> None)"

text \<open>\<open>shutdown\<close> drops the sender and then joins the workers in turn.\<close>

definition shutdown :: "'j thread_pool \<Rightarrow> 'j thread_pool" where
  "shutdown p = p\<lparr>sender := False\<rparr>"

definition join_next :: "'j thread_pool \<Rightarrow> 'j thread_pool option" where
  "join_next p =
     (if \<not> sender p \<and> joined p < length (workers p) \<and> workers p ! joined p = Exited
      then Some (p\<lparr>joined := joined p + 1\<rparr>) else None)"

inductive pool_step :: "('j \<Rightarrow> bool) \<Rightarrow> (string \<Rightarrow> bool) \<Rightarrow> 'j thread_pool \<Rightarrow> 'j thread_pool \<Rightarrow> bool"
  for panics fails where
  submit: "execute job p = Inr p' \<Longrightarrow> pool_step panics fails p p'"
| work: "worker_step panics fails i p = Some p' \<Longrightarrow> pool_step panics fails p p'"
| close: "pool_step panics fails p (shutdown p)"
| join: "join_next p = Some p' \<Longrightarrow> pool_step panics fails p p'"

inductive pool_reach :: "('j \<Rightarrow> bool) \<Rightarrow> (string \<Rightarrow> bool) \<Rightarrow> 'j thread_pool \<Rightarrow> bool" for panics fails where
  start: "with_error_log n destination = Inr p \<Longrightarrow> pool_reach panics fails p"
| step: "pool_reach panics fails p \<Longrightarrow> pool_step panics fails p p' \<Longrightarrow> pool_reach panics fails p'"

inductive_cases pool_stepE: "pool_step panics fails p p'"

section \<open>The invariant\<close>

fun running_job :: "'j worker_state \<Rightarrow> 'j multiset" where
  "running_job (Running job) = {#job#}"
| "running_job _ = {#}"

definition running :: "'j worker_state list \<Rightarrow> 'j multiset" where
  "running ws = sum_list (map running_job ws)"

definition receivers :: "'j worker_state list \<Rightarrow> nat" where
  "receivers ws = sum_list (map (\<lambda>w. of_bool (w = Receiving)) ws)"

text \<open>A sum over the workers changes by what one worker contributes.\<close>

lemma sum_list_map_update:
  fixes f :: "'a \<Rightarrow> 'b::comm_monoid_add"
  shows "i < length ws \<Longrightarrow> sum_list (map f (ws[i := w])) + f (ws ! i) = sum_list (map f ws) + f w"
proof (induction ws arbitrary: i)
  case (Cons v ws)
  show ?case
  proof (cases i)
    case (Suc k)
    with Cons have "sum_list (map f (ws[k := w])) + f (ws ! k) = sum_list (map f ws) + f w" by simp
    then show ?thesis using Suc by (simp add: add.assoc)
  qed (simp add: ac_simps)
qed simp

lemmas running_update = sum_list_map_update [of _ _ running_job, folded running_def]

lemma receivers_update:
  "i < length ws \<Longrightarrow> receivers (ws[i := w]) + of_bool (ws ! i = Receiving) = receivers ws + of_bool (w = Receiving)"
  unfolding receivers_def by (rule sum_list_map_update)

lemma running_replicate: "running_job w = {#} \<Longrightarrow> running (replicate n w) = {#}"
  by (induction n) (auto simp: running_def)

lemma receivers_zero: "receivers ws = 0 \<longleftrightarrow> Receiving \<notin> set ws"
  by (induction ws) (auto simp: receivers_def)

definition pool_ok :: "'j thread_pool \<Rightarrow> bool" where
  "pool_ok p \<longleftrightarrow>
     started p @ queue p = accepted p
   \<and> mset (started p) = mset (finished p) + running (workers p)
   \<and> receivers (workers p) \<le> 1
   \<and> \<not> poisoned p \<and> workers p \<noteq> []
   \<and> (Exited \<in> set (workers p) \<longrightarrow> \<not> sender p \<and> queue p = [])
   \<and> joined p \<le> length (workers p) \<and> list_all (\<lambda>w. w = Exited) (take (joined p) (workers p))"

lemma pool_ok_start: "with_error_log n destination = Inr p \<Longrightarrow> pool_ok p"
  by (auto simp: with_error_log_def pool_ok_def running_replicate receivers_zero split: if_splits) (simp add: receivers_def sum_list_replicate)

lemma pool_ok_execute: "pool_ok p \<Longrightarrow> execute job p = Inr p' \<Longrightarrow> pool_ok p'"
  by (auto simp: pool_ok_def execute_def split: if_splits)

lemma pool_ok_join: "pool_ok p \<Longrightarrow> join_next p = Some p' \<Longrightarrow> pool_ok p'"
  by (auto simp: pool_ok_def join_next_def take_Suc_conv_app_nth split: if_splits)

lemma exited_update:
  "list_all (\<lambda>w. w = Exited) (take k ws) \<Longrightarrow> ws ! i \<noteq> Exited \<Longrightarrow> i < length ws
    \<Longrightarrow> list_all (\<lambda>w. w = Exited) (take k (ws[i := w]))"
  by (auto simp: list_all_length nth_list_update)

lemma pool_ok_worker:
  assumes ok: "pool_ok p" and s: "worker_step panics fails i p = Some p'"
  shows "pool_ok p'"
proof -
  have i: "i < length (workers p)" using s by (auto simp: worker_step_def split: if_splits)
  note u = running_update [OF i] receivers_update [OF i] exited_update [OF _ _ i]
  show ?thesis
  proof (cases "workers p ! i")
    case Waiting
    then show ?thesis using ok s i u(1) [of Receiving] u(2) [of Receiving] u(3) [of "joined p" Receiving]
      by (auto simp: worker_step_def pool_ok_def receivers_zero [symmetric] split: if_splits dest!: set_update_subset_insert [THEN subsetD])
  next
    case Receiving
    then show ?thesis using ok s i u(1) u(2) [of Exited] u(2) [of "Running (hd (queue p))"] u(3) [of "joined p"] nth_mem [OF i]
      by (auto simp: worker_step_def pool_ok_def split: if_splits list.splits dest!: set_update_subset_insert [THEN subsetD])
  next
    case (Running job)
    then show ?thesis using ok s i u(1) [of Waiting] u(2) [of Waiting] u(3) [of "joined p" Waiting]
      by (auto simp: worker_step_def pool_ok_def split: if_splits dest!: set_update_subset_insert [THEN subsetD])
  next
    case Exited
    then show ?thesis using s i by (simp add: worker_step_def)
  qed
qed

lemma pool_ok_step: "pool_ok p \<Longrightarrow> pool_step panics fails p p' \<Longrightarrow> pool_ok p'"
  by (erule pool_stepE) (auto intro: pool_ok_execute pool_ok_worker pool_ok_join, auto simp: pool_ok_def shutdown_def)

lemma pool_reach_ok: "pool_reach panics fails p \<Longrightarrow> pool_ok p"
  by (induction rule: pool_reach.induct) (auto intro: pool_ok_start pool_ok_step)

text \<open>Schedules, to run a pool on concrete jobs.\<close>

datatype 'j pool_event = Submit 'j | Work nat | Close | Join

fun pool_event_step :: "('j \<Rightarrow> bool) \<Rightarrow> (string \<Rightarrow> bool) \<Rightarrow> 'j pool_event \<Rightarrow> 'j thread_pool \<Rightarrow> 'j thread_pool option" where
  "pool_event_step panics fails (Submit job) p = (case execute job p of Inl e \<Rightarrow> None | Inr p' \<Rightarrow> Some p')"
| "pool_event_step panics fails (Work i) p = worker_step panics fails i p"
| "pool_event_step panics fails Close p = Some (shutdown p)"
| "pool_event_step panics fails Join p = join_next p"

fun pool_run :: "('j \<Rightarrow> bool) \<Rightarrow> (string \<Rightarrow> bool) \<Rightarrow> 'j pool_event list \<Rightarrow> 'j thread_pool \<Rightarrow> 'j thread_pool option" where
  "pool_run panics fails [] p = Some p"
| "pool_run panics fails (e # es) p =
     (case pool_event_step panics fails e p of None \<Rightarrow> None | Some p' \<Rightarrow> pool_run panics fails es p')"

lemma pool_event_step_reach:
  "pool_reach panics fails p \<Longrightarrow> pool_event_step panics fails e p = Some p' \<Longrightarrow> pool_reach panics fails p'"
  by (cases e) (auto intro: pool_reach.step pool_step.intros split: sum.splits)

lemma pool_run_reach:
  "pool_reach panics fails p \<Longrightarrow> pool_run panics fails es p = Some p' \<Longrightarrow> pool_reach panics fails p'"
  by (induction es arbitrary: p) (auto intro: pool_event_step_reach split: option.splits)

definition demo_pool :: "nat thread_pool" where
  "demo_pool =
     \<lparr>workers = [Exited, Exited], sender = False, queue = [], poisoned = False, error_log = None, joined = 2,
      accepted = [7, 8], started = [7, 8], finished = [8, 7],
      pool_log = [(''stderr'', ''[ERROR] ThreadPool worker 0 caught job panic'' @ [LF])]\<rparr>"

lemma demo_pool_reach: "pool_reach (\<lambda>job. job = 7) (\<lambda>d. False) demo_pool"
proof (rule pool_run_reach)
  let ?p = "\<lparr>workers = [Waiting, Waiting], sender = True, queue = [], poisoned = False, error_log = None, joined = 0,
      accepted = [], started = [], finished = [], pool_log = []\<rparr> :: nat thread_pool"
  show "pool_reach (\<lambda>job. job = 7) (\<lambda>d. False) ?p"
    by (rule pool_reach.start [where n = 2 and destination = None]) (simp add: with_error_log_def numeral_2_eq_2)
  show "pool_run (\<lambda>job. job = 7) (\<lambda>d. False)
      [Submit 7, Work 0, Submit 8, Work 0, Work 1, Close, Work 1, Work 1, Work 1, Work 0, Work 1, Work 0, Work 0,
       Join, Join] ?p = Some demo_pool" by code_simp
qed

section \<open>Jobs are run once, in order, and shutdown drains the queue\<close>

text \<open>
  C32. In every reachable pool the jobs accepted so far are, in order, those that were started followed
  by those still queued; each started job has finished or is running on exactly one worker, whether or
  not it or others panic; and until the pool is shut down every submitted job is accepted.
\<close>

theorem jobs_once_in_order:
  assumes "pool_reach panics fails p"
  shows "started p @ queue p = accepted p
   \<and> mset (started p) = mset (finished p) + running (workers p)
   \<and> (sender p \<longrightarrow> execute job p = Inr (p\<lparr>queue := queue p @ [job], accepted := accepted p @ [job]\<rparr>))"
proof -
  have ok: "pool_ok p" using pool_reach_ok [OF assms] .
  have "\<not> list_all (\<lambda>w. w = Exited) (workers p)" if "sender p"
    using ok that by (cases "workers p") (auto simp: pool_ok_def)
  with ok show ?thesis by (simp add: pool_ok_def execute_def)
qed

theorem jobs_once_in_order_witness:
  "started demo_pool @ queue demo_pool = [7, 8]
   \<and> mset (started demo_pool) = mset (finished demo_pool) + running (workers demo_pool)"
  using jobs_once_in_order [OF demo_pool_reach] by (simp add: demo_pool_def)

fun worker_weight :: "'j worker_state \<Rightarrow> nat" where
  "worker_weight Exited = 0"
| "worker_weight Receiving = 1"
| "worker_weight Waiting = 2"
| "worker_weight (Running job) = 3"

definition remaining_work :: "'j thread_pool \<Rightarrow> nat" where
  "remaining_work p = 3 * length (queue p) + sum_list (map worker_weight (workers p))"

lemma worker_step_decreases:
  assumes "worker_step panics fails i p = Some p'"
  shows "remaining_work p' < remaining_work p"
proof -
  have i: "i < length (workers p)" using assms by (auto simp: worker_step_def split: if_splits)
  note u = sum_list_map_update [OF i, of worker_weight]
  show ?thesis using assms i u [of Exited] u [of Receiving] u [of Waiting] u [of "Running (hd (queue p))"]
    by (auto simp: worker_step_def remaining_work_def split: if_splits worker_state.splits list.splits)
qed

lemma blocked_all_exited:
  assumes ok: "pool_ok p" and closed: "\<not> sender p"
    and blocked: "\<And>i. worker_step panics fails i p = None"
  shows "workers p = replicate (length (workers p)) Exited"
proof (rule replicate_eqI)
  fix w assume "w \<in> set (workers p)"
  then obtain i where i: "i < length (workers p)" "workers p ! i = w" by (auto simp: in_set_conv_nth)
  have nr: "Receiving \<notin> set (workers p)"
  proof
    assume "Receiving \<in> set (workers p)"
    then obtain k where "k < length (workers p)" "workers p ! k = Receiving" by (auto simp: in_set_conv_nth)
    then show False using blocked [of k] closed by (auto simp: worker_step_def split: list.splits)
  qed
  moreover have "w \<noteq> Receiving" using nr \<open>w \<in> set (workers p)\<close> by auto
  ultimately show "w = Exited" using blocked [of i] i ok
    by (cases w) (auto simp: worker_step_def pool_ok_def split: if_splits)
qed simp

lemma exited_finished:
  assumes ok: "pool_ok p" and ex: "workers p = replicate n Exited"
  shows "queue p = [] \<and> mset (finished p) = mset (accepted p)"
proof -
  have "running (workers p) = {#}" by (simp add: ex running_replicate)
  then show ?thesis using ok ex by (cases n) (auto simp: pool_ok_def)
qed

text \<open>
  C33. Once the pool is shut down every step of a worker uses up remaining work, so the workers come
  to rest; when none of them can move, or when shutdown has joined them all, every worker has left its
  loop and every job that was ever accepted has been run exactly once. No job is lost and no worker is
  left blocked on the lock or the channel.
\<close>

theorem shutdown_drains:
  assumes "pool_reach panics fails p" and "\<not> sender p"
  shows "(\<forall>i p'. worker_step panics fails i p = Some p' \<longrightarrow> remaining_work p' < remaining_work p)
   \<and> ((\<forall>i. worker_step panics fails i p = None) \<or> joined p = length (workers p) \<longrightarrow>
        workers p = replicate (length (workers p)) Exited
      \<and> queue p = [] \<and> mset (finished p) = mset (accepted p))"
proof -
  have ok: "pool_ok p" using pool_reach_ok [OF assms(1)] .
  have "workers p = replicate (length (workers p)) Exited"
    if "(\<forall>i. worker_step panics fails i p = None) \<or> joined p = length (workers p)"
    using that
  proof
    assume "joined p = length (workers p)"
    then show ?thesis using ok by (intro replicate_eqI) (auto simp: pool_ok_def list_all_iff)
  qed (use blocked_all_exited [OF ok assms(2)] in blast)
  then show ?thesis using worker_step_decreases exited_finished [OF ok] by blast
qed

theorem shutdown_drains_witness:
  "\<not> sender demo_pool \<and> joined demo_pool = 2 \<and> mset (finished demo_pool) = mset (accepted demo_pool)"
  using shutdown_drains [OF demo_pool_reach] by (simp add: demo_pool_def)

end
