(* ===== verification/Config_Parse.thy ===== *)
theory Config_Parse
  imports Config
begin

text \<open>
  The \<open>.veysrule\<close> language (\<open>src/src/config/veysrule.rs\<close>): comments and tokens, the validators,
  the native directives, the legacy \<open>KEY = VALUE\<close> directives, and the parser of a whole file,
  which collects one error per bad line and keeps going. Text is UTF-8 in bytes, so a position
  that is not a character boundary is explicit: \<open>split_at\<close> panics there.
\<close>

abbreviation SQ :: char where "SQ \<equiv> CHR 0x27"

section \<open>Lines and tokens\<close>

text \<open>A directive fails with a message, or the thread panics.\<close>

datatype rule_error = Msg string | Panic

definition unescape :: "char \<Rightarrow> char" where
  "unescape c = (if c = CHR ''n'' then LF else if c = CHR ''r'' then CR
                 else if c = CHR ''t'' then CHR 0x09 else c)"

definition push_token :: "string \<Rightarrow> string list" where
  "push_token cur = (if cur = [] then [] else [rev cur])"

text \<open>
  The loop of \<open>tokenize_rule_line\<close>; \<open>cur\<close> is the current token reversed. White space is only
  looked for outside quotes, and may take several bytes.
\<close>

function tokenize_from :: "string \<Rightarrow> string \<Rightarrow> bool \<Rightarrow> bool \<Rightarrow> string + string list" where
  "tokenize_from s cur quoted escaped =
     (case s of
        [] \<Rightarrow>
          if escaped then Inl ''trailing escape''
          else if quoted then Inl ''unterminated quoted string''
          else Inr (push_token cur)
      | ch # rest \<Rightarrow>
          if escaped then tokenize_from rest (unescape ch # cur) quoted False
          else if ch = BSLASH \<and> quoted then tokenize_from rest cur quoted True
          else if ch = DQ then tokenize_from rest cur (\<not> quoted) False
          else if ch = CHR ''#'' \<and> \<not> quoted then Inr (push_token cur)
          else if \<not> quoted \<and> ws_len s > 0 then
            (case tokenize_from (drop (ws_len s) s) [] quoted False of
               Inl e \<Rightarrow> Inl e
             | Inr ts \<Rightarrow> Inr (push_token cur @ ts))
          else tokenize_from rest (ch # cur) quoted False)"
  by pat_completeness auto
termination
  by (relation "measure (\<lambda>(s, cur, q, e). length s)") auto

declare tokenize_from.simps [simp del]

definition tokenize_rule_line :: "string \<Rightarrow> string + string list" where
  "tokenize_rule_line line = tokenize_from line [] False False"

text \<open>The prefix of the line before an unquoted comment sign.\<close>

fun strip_comment_from :: "string \<Rightarrow> bool \<Rightarrow> bool \<Rightarrow> string" where
  "strip_comment_from [] quoted escaped = []"
| "strip_comment_from (ch # rest) quoted escaped =
     (if escaped then ch # strip_comment_from rest quoted False
      else if ch = BSLASH \<and> quoted then ch # strip_comment_from rest quoted True
      else if ch = DQ then ch # strip_comment_from rest (\<not> quoted) False
      else if ch = CHR ''#'' \<and> \<not> quoted then []
      else ch # strip_comment_from rest quoted False)"

definition strip_rule_comment :: "string \<Rightarrow> string" where
  "strip_rule_comment line = strip_comment_from line False False"

fun unquoted_equals_from :: "string \<Rightarrow> bool \<Rightarrow> bool \<Rightarrow> bool" where
  "unquoted_equals_from [] quoted escaped = False"
| "unquoted_equals_from (ch # rest) quoted escaped =
     (if escaped then unquoted_equals_from rest quoted False
      else if ch = BSLASH \<and> quoted then unquoted_equals_from rest quoted True
      else if ch = DQ then unquoted_equals_from rest (\<not> quoted) False
      else if ch = CHR ''='' \<and> \<not> quoted then True
      else unquoted_equals_from rest quoted False)"

definition has_unquoted_equals :: "string \<Rightarrow> bool" where
  "has_unquoted_equals line = unquoted_equals_from line False False"

section \<open>Validators\<close>

definition valid_header_name :: "string \<Rightarrow> bool" where
  "valid_header_name name \<longleftrightarrow> name \<noteq> [] \<and> list_all is_tchar name"

definition valid_header_value :: "string \<Rightarrow> bool" where
  "valid_header_value val \<longleftrightarrow> \<not> contains_any val [CR, LF, NUL]"

definition valid_front_controller_path :: "string \<Rightarrow> bool" where
  "valid_front_controller_path val \<longleftrightarrow>
     starts_with val ''/'' \<and> length val > 1
     \<and> \<not> contains_any val [CR, LF, NUL, CHR ''?'', CHR ''#'', CHR ''%'']
     \<and> list_all (\<lambda>c. c \<noteq> [] \<and> c \<noteq> ''.'' \<and> c \<noteq> ''..'') (drop 1 (split_char (CHR ''/'') val))
     \<and> \<not> ends_with val ''/''"

definition parse_duration :: "string \<Rightarrow> rule_error + nat" where
  "parse_duration val =
     (if val = [] then Inl (Msg ''duration cannot be empty'')
      else if length val > 1 \<and> 128 \<le> code (last val) \<and> code (last val) < 192 then Inl Panic
      else case parse_u64 (butlast val) of
             None \<Rightarrow> Inl (Msg ''invalid duration'')
           | Some amount \<Rightarrow>
               (let suffix_char = last val;
                    mult = (if suffix_char = CHR ''s'' then Some (1 :: nat)
                            else if suffix_char = CHR ''m'' then Some 60
                            else if suffix_char = CHR ''h'' then Some (60 * 60)
                            else if suffix_char = CHR ''d'' then Some (24 * 60 * 60)
                            else if suffix_char = CHR ''w'' then Some (7 * 24 * 60 * 60)
                            else None)
                in case mult of
                     None \<Rightarrow> Inl (Msg ''duration suffix must be s, m, h, d, or w'')
                   | Some m \<Rightarrow>
                       if amount * m \<ge> 2 ^ 64 then Inl (Msg ''duration overflow'')
                       else Inr (amount * m)))"

definition parse_status :: "string \<Rightarrow> string + nat" where
  "parse_status val =
     (case parse_u16 val of
        None \<Rightarrow> Inl ''invalid HTTP status''
      | Some status \<Rightarrow>
          if 100 \<le> status \<and> status \<le> 599 then Inr status
          else Inl ''HTTP status must be between 100 and 599'')"

text \<open>The bracket stack of \<open>validate_rewrite_pattern\<close>; a pop on an empty stack is \<open>None\<close>.\<close>

fun rewrite_brackets :: "string \<Rightarrow> bool \<Rightarrow> char list \<Rightarrow> bool" where
  "rewrite_brackets [] escaped stack = (\<not> escaped \<and> stack = [])"
| "rewrite_brackets (ch # rest) escaped stack =
     (if escaped then rewrite_brackets rest False stack
      else if ch = BSLASH then rewrite_brackets rest True stack
      else if ch = CHR ''('' \<or> ch = CHR ''['' \<or> ch = CHR ''{'' then rewrite_brackets rest False (ch # stack)
      else if ch = CHR '')'' then
        (case stack of c # st \<Rightarrow> c = CHR ''('' \<and> rewrite_brackets rest False st | [] \<Rightarrow> False)
      else if ch = CHR '']'' then
        (case stack of c # st \<Rightarrow> c = CHR ''['' \<and> rewrite_brackets rest False st | [] \<Rightarrow> False)
      else if ch = CHR ''}'' then
        (case stack of c # st \<Rightarrow> c = CHR ''{'' \<and> rewrite_brackets rest False st | [] \<Rightarrow> False)
      else rewrite_brackets rest False stack)"

definition validate_rewrite_pattern :: "string \<Rightarrow> bool" where
  "validate_rewrite_pattern pattern = rewrite_brackets pattern False []"

definition valid_route_prefix :: "string \<Rightarrow> bool" where
  "valid_route_prefix pre \<longleftrightarrow>
     starts_with pre ''/'' \<and> \<not> contains_any pre [CR, LF, NUL]
     \<and> \<not> list_ex (\<lambda>c. c = ''..'') (split_char (CHR ''/'') pre)"

definition valid_host_port :: "string \<Rightarrow> bool" where
  "valid_host_port rest \<longleftrightarrow>
     (case rsplit_once (CHR '':'') rest of
        None \<Rightarrow> False
      | Some (host, port) \<Rightarrow>
          rest \<noteq> [] \<and> host \<noteq> []
          \<and> \<not> contains_any rest [CHR ''/'', CHR ''?'', CHR ''#'', CHR ''@'', CR, LF, NUL]
          \<and> parse_u16 port \<noteq> None)"

text \<open>A list of upstreams is split at its commas; the parts have none, so one level suffices.\<close>

definition valid_upstream :: "string \<Rightarrow> bool" where
  "valid_upstream upstream \<longleftrightarrow>
     list_all (\<lambda>u. case strip_prefix ''http://'' u of None \<Rightarrow> False | Some rest \<Rightarrow> valid_host_port rest)
       (if contains_any upstream [CHR '',''] then map trim (split_char (CHR '','') upstream)
        else [upstream])"

definition valid_fastcgi_endpoint :: "string \<Rightarrow> bool" where
  "valid_fastcgi_endpoint endpoint \<longleftrightarrow>
     (case strip_prefix ''unix:'' endpoint of
        Some path \<Rightarrow> path \<noteq> [] \<and> length path \<le> 4096 \<and> \<not> contains_any path [CR, LF, NUL]
      | None \<Rightarrow>
          (case strip_prefix ''tcp://'' endpoint of
             None \<Rightarrow> False
           | Some rest \<Rightarrow> valid_host_port rest))"

section \<open>Native directives\<close>

text \<open>The arms of the match on the first token, for a token list that is not empty.\<close>

definition directive_header :: "string list \<Rightarrow> directory_config \<Rightarrow> rule_error + directory_config" where
  "directive_header ts c =
     (if length ts \<noteq> 3 then Inl (Msg (hd ts @ '' requires <name> <value>''))
      else if \<not> valid_header_name (ts ! 1) then Inl (Msg ''invalid header name'')
      else if \<not> valid_header_value (ts ! 2) then
        Inl (Msg ''header value contains forbidden control characters'')
      else if hd ts = ''header'' then Inr (c\<lparr>dc_headers := dc_headers c @ [(ts ! 1, ts ! 2)]\<rparr>)
      else Inr (c\<lparr>dc_add_headers := dc_add_headers c @ [(ts ! 1, ts ! 2)]\<rparr>))"

definition directive_remove_header :: "string list \<Rightarrow> directory_config \<Rightarrow> rule_error + directory_config" where
  "directive_remove_header ts c =
     (if length ts \<noteq> 2 \<or> \<not> valid_header_name (ts ! 1) then
        Inl (Msg ''remove_header requires a valid header name'')
      else Inr (c\<lparr>dc_remove_headers := dc_remove_headers c @ [ts ! 1]\<rparr>))"

definition directive_redirect :: "string list \<Rightarrow> directory_config \<Rightarrow> rule_error + directory_config" where
  "directive_redirect ts c =
     (if length ts \<noteq> 4 then Inl (Msg ''redirect requires <source> <target> <status>'')
      else case parse_status (ts ! 3) of
             Inl m \<Rightarrow> Inl (Msg m)
           | Inr status \<Rightarrow>
               if \<not> (300 \<le> status \<and> status \<le> 399) then
                 Inl (Msg ''redirect status must be between 300 and 399'')
               else if contains_any (ts ! 1) [CR, LF, NUL] \<or> contains_any (ts ! 2) [CR, LF, NUL] then
                 Inl (Msg ''redirect paths contain forbidden control characters'')
               else Inr (c\<lparr>dc_redirect :=
                      Some \<lparr>rd_source = ts ! 1, rd_target = ts ! 2, rd_status = status\<rparr>\<rparr>))"

definition directive_rewrite :: "string list \<Rightarrow> directory_config \<Rightarrow> rule_error + directory_config" where
  "directive_rewrite ts c =
     (if length ts < 3 \<or> length ts > 4 then
        Inl (Msg ''rewrite requires <pattern> <replacement> [status]'')
      else if length (ts ! 1) > 4096 \<or> length (ts ! 2) > 4096 \<or> contains_any (ts ! 1) [NUL] then
        Inl (Msg ''rewrite pattern or replacement is too large or contains NUL'')
      else if \<not> validate_rewrite_pattern (ts ! 1) then Inl (Msg ''unbalanced rewrite pattern'')
      else if contains_any (ts ! 2) [CR, LF, NUL] then
        Inl (Msg ''rewrite replacement contains forbidden control characters'')
      else case (if length ts = 4
                 then case parse_status (ts ! 3) of Inl m \<Rightarrow> Inl (Msg m) | Inr st \<Rightarrow> Inr (Some st)
                 else Inr None) of
             Inl e \<Rightarrow> Inl e
           | Inr status \<Rightarrow>
               if length (dc_rewrites c) \<ge> MAX_REWRITE_RULES then
                 Inl (Msg (''at most '' @ show_nat MAX_REWRITE_RULES @ '' rewrite directives are allowed''))
               else Inr (c\<lparr>dc_rewrites := dc_rewrites c @
                      [\<lparr>rw_pattern = ts ! 1, rw_replacement = ts ! 2, rw_status = status\<rparr>]\<rparr>))"

definition directive_access :: "string list \<Rightarrow> directory_config \<Rightarrow> rule_error + directory_config" where
  "directive_access ts c =
     (if length ts \<noteq> 3 \<or> ts ! 1 \<noteq> ''ip'' then Inl (Msg (hd ts @ '' requires ip <CIDR>''))
      else case parse_cidr (ts ! 2) of
             Inl m \<Rightarrow> Inl (Msg m)
           | Inr cidr \<Rightarrow>
               if hd ts = ''allow'' then Inr (c\<lparr>dc_allow_networks := dc_allow_networks c @ [cidr]\<rparr>)
               else Inr (c\<lparr>dc_deny_networks := dc_deny_networks c @ [cidr]\<rparr>))"

text \<open>The closure \<open>need(2)\<close>.\<close>

definition need_argument :: "string list \<Rightarrow> 'a \<Rightarrow> rule_error + 'a" where
  "need_argument ts r =
     (if length ts < 2 then Inl (Msg (hd ts @ '' requires at least 1 arguments'')) else Inr r)"

definition method_token :: "string \<Rightarrow> bool" where
  "method_token m \<longleftrightarrow> list_all (\<lambda>b. is_ascii_uppercase b \<or> is_ascii_digit b \<or> b = CHR ''-'') m"

definition directive_methods :: "string list \<Rightarrow> directory_config \<Rightarrow> rule_error + directory_config" where
  "directive_methods ts c =
     (case need_argument ts (tl ts) of
        Inl e \<Rightarrow> Inl e
      | Inr ms \<Rightarrow>
          if \<not> list_all method_token ms then Inl (Msg ''methods must be uppercase HTTP tokens'')
          else Inr (c\<lparr>dc_methods := Some (foldl (push_new (=)) [] ms)\<rparr>))"

definition directive_index :: "string list \<Rightarrow> directory_config \<Rightarrow> rule_error + directory_config" where
  "directive_index ts c =
     (case need_argument ts (tl ts) of
        Inl e \<Rightarrow> Inl e
      | Inr fs \<Rightarrow>
          if list_ex (\<lambda>f. f = [] \<or> contains_any f [CHR ''/''] \<or> f = ''.'' \<or> f = ''..'') fs then
            Inl (Msg ''index names must be simple file names'')
          else Inr (c\<lparr>dc_index_files := Some fs\<rparr>))"

definition directive_switch :: "string list \<Rightarrow> directory_config \<Rightarrow> rule_error + directory_config" where
  "directive_switch ts c =
     (if length ts \<noteq> 2 then Inl (Msg (hd ts @ '' requires on or off''))
      else if ts ! 1 \<noteq> ''on'' \<and> ts ! 1 \<noteq> ''off'' then Inl (Msg ''value must be on or off'')
      else if hd ts = ''autoindex'' then Inr (c\<lparr>dc_autoindex := Some (ts ! 1 = ''on'')\<rparr>)
      else Inr (c\<lparr>dc_cache := Some (ts ! 1 = ''on'')\<rparr>))"

definition directive_expires :: "string list \<Rightarrow> directory_config \<Rightarrow> rule_error + directory_config" where
  "directive_expires ts c =
     (if length ts \<noteq> 2 then Inl (Msg ''expires requires a duration'')
      else case parse_duration (ts ! 1) of
             Inl e \<Rightarrow> Inl e
           | Inr d \<Rightarrow> Inr (c\<lparr>dc_expires := Some d\<rparr>))"

definition directive_mime :: "string list \<Rightarrow> directory_config \<Rightarrow> rule_error + directory_config" where
  "directive_mime ts c =
     (if length ts \<noteq> 3 \<or> \<not> starts_with (ts ! 1) ''.'' \<or> length (ts ! 1) = 1
         \<or> \<not> valid_header_value (ts ! 2)
      then Inl (Msg ''mime requires <.extension> <mime-type>'')
      else if \<not> contains_any (ts ! 2) [CHR ''/''] then Inl (Msg ''invalid MIME type'')
      else Inr (c\<lparr>dc_mime_types := dc_mime_types c @ [(to_ascii_lowercase (ts ! 1), ts ! 2)]\<rparr>))"

definition directive_error_page :: "string list \<Rightarrow> directory_config \<Rightarrow> rule_error + directory_config" where
  "directive_error_page ts c =
     (if length ts \<noteq> 3 then Inl (Msg ''error_page requires <status> <path>'')
      else case parse_status (ts ! 1) of
             Inl m \<Rightarrow> Inl (Msg m)
           | Inr status \<Rightarrow>
               if \<not> starts_with (ts ! 2) ''/'' \<or> str_contains (ts ! 2) ''..'' then
                 Inl (Msg ''error page path must be an absolute URL path without traversal'')
               else Inr (c\<lparr>dc_error_pages := dc_error_pages c @ [(status, ts ! 2)]\<rparr>))"

definition unknown_directive :: "string \<Rightarrow> string" where
  "unknown_directive d = ''unknown directive '' @ [SQ] @ d @ [SQ]"

definition parse_native_directive :: "string \<Rightarrow> directory_config \<Rightarrow> rule_error + directory_config" where
  "parse_native_directive line c =
     (case tokenize_rule_line line of
        Inl m \<Rightarrow> Inl (Msg m)
      | Inr ts \<Rightarrow>
          if ts = [] then Inr c
          else if hd ts = ''header'' \<or> hd ts = ''add_header'' then directive_header ts c
          else if hd ts = ''remove_header'' then directive_remove_header ts c
          else if hd ts = ''redirect'' then directive_redirect ts c
          else if hd ts = ''rewrite'' then directive_rewrite ts c
          else if hd ts = ''allow'' \<or> hd ts = ''deny'' then directive_access ts c
          else if hd ts = ''methods'' then directive_methods ts c
          else if hd ts = ''index'' then directive_index ts c
          else if hd ts = ''autoindex'' \<or> hd ts = ''cache'' then directive_switch ts c
          else if hd ts = ''expires'' then directive_expires ts c
          else if hd ts = ''mime'' then directive_mime ts c
          else if hd ts = ''error_page'' then directive_error_page ts c
          else Inl (Msg (unknown_directive (hd ts))))"

section \<open>Legacy directives\<close>

text \<open>
  The arms of the match on the key, in groups. Each returns \<open>None\<close> for a key that is not its
  own, and otherwise an error message or the new configuration. Root-only keys are guarded by
  \<open>root_only\<close> where they are dispatched.
\<close>

definition set_number :: "(string \<Rightarrow> nat option) \<Rightarrow> string \<Rightarrow> string \<Rightarrow> (nat \<Rightarrow> 'c) \<Rightarrow> string + 'c" where
  "set_number parse key val f =
     (case parse val of Some n \<Rightarrow> Inr (f n) | None \<Rightarrow> Inl (''invalid '' @ key))"

definition key_listen :: "string \<Rightarrow> string \<Rightarrow> server_config \<Rightarrow> (string + server_config) option" where
  "key_listen key val sc =
     (if key = ''PORT'' then
        Some (case parse_u16 val of
                Some p \<Rightarrow> if p > 0 then Inr (sc\<lparr>sc_port := p\<rparr>)
                          else Inl ''PORT must be between 1 and 65535''
              | None \<Rightarrow> Inl ''PORT must be between 1 and 65535'')
      else if key = ''ROOT_DIR'' then
        Some (if val = [] then Inl ''ROOT_DIR cannot be empty'' else Inr (sc\<lparr>sc_root_dir := val\<rparr>))
      else None)"

definition key_sizes :: "string \<Rightarrow> string \<Rightarrow> server_config \<Rightarrow> (string + server_config) option" where
  "key_sizes key val sc =
     (if key = ''MAX_REQUEST_SIZE'' then
        Some (set_number parse_usize key val (\<lambda>n. sc\<lparr>sc_max_request_size := n\<rparr>))
      else if key = ''MAX_HEADER_SIZE'' then
        Some (set_number parse_usize key val (\<lambda>n. sc\<lparr>sc_max_header_size := n\<rparr>))
      else if key = ''MAX_HEADERS'' then
        Some (set_number parse_usize key val (\<lambda>n. sc\<lparr>sc_max_headers := n\<rparr>))
      else if key = ''MAX_HEADER_LINE'' then
        Some (set_number parse_usize key val (\<lambda>n. sc\<lparr>sc_max_header_line := n\<rparr>))
      else if key = ''MAX_URI_LENGTH'' then
        Some (set_number parse_usize key val (\<lambda>n. sc\<lparr>sc_max_uri_length := n\<rparr>))
      else None)"

definition key_timeouts :: "string \<Rightarrow> string \<Rightarrow> server_config \<Rightarrow> (string + server_config) option" where
  "key_timeouts key val sc =
     (if key = ''READ_TIMEOUT'' then
        Some (set_number parse_u64 key val (\<lambda>n. sc\<lparr>sc_read_timeout := n\<rparr>))
      else if key = ''WRITE_TIMEOUT'' then
        Some (set_number parse_u64 key val (\<lambda>n. sc\<lparr>sc_write_timeout := n\<rparr>))
      else if key = ''KEEP_ALIVE_TIMEOUT'' then
        Some (set_number parse_u64 key val (\<lambda>n. sc\<lparr>sc_keep_alive_timeout := n\<rparr>))
      else if key = ''MAX_CONNECTIONS'' then
        Some (set_number parse_usize key val (\<lambda>n. sc\<lparr>sc_max_connections := n\<rparr>))
      else if key = ''MAX_REQUESTS_PER_CONNECTION'' then
        Some (set_number parse_usize key val (\<lambda>n. sc\<lparr>sc_max_requests_per_connection := n\<rparr>))
      else None)"

definition key_logs :: "string \<Rightarrow> string \<Rightarrow> server_config \<Rightarrow> (string + server_config) option" where
  "key_logs key val sc =
     (if key = ''LOG_FORMAT'' then
        Some (if to_ascii_lowercase val = ''text'' \<or> to_ascii_lowercase val = ''json''
              then Inr (sc\<lparr>sc_log_format := to_ascii_lowercase val\<rparr>)
              else Inl ''LOG_FORMAT must be text or json'')
      else if key = ''ACCESS_LOG'' \<or> key = ''ERROR_LOG'' then
        Some (if val = ''stdout'' \<or> val = ''stderr'' \<or> (starts_with val ''/'' \<and> length val \<le> 4096)
              then (if key = ''ACCESS_LOG'' then Inr (sc\<lparr>sc_access_log := val\<rparr>)
                    else Inr (sc\<lparr>sc_error_log := val\<rparr>))
              else Inl (''invalid '' @ key @ '' destination''))
      else None)"

definition key_compression :: "string \<Rightarrow> string \<Rightarrow> server_config \<Rightarrow> (string + server_config) option" where
  "key_compression key val sc =
     (if key = ''COMPRESSION_ENABLED'' then
        (let v = to_ascii_lowercase val in
         Some (if v = ''on'' \<or> v = ''true'' then Inr (sc\<lparr>sc_compression_enabled := True\<rparr>)
               else if v = ''off'' \<or> v = ''false'' then Inr (sc\<lparr>sc_compression_enabled := False\<rparr>)
               else Inl ''COMPRESSION_ENABLED must be on or off''))
      else if key = ''COMPRESSION_LEVEL'' then
        Some (case parse_u32 val of
                Some level \<Rightarrow> if level \<le> 9 then Inr (sc\<lparr>sc_compression_level := level\<rparr>)
                              else Inl ''COMPRESSION_LEVEL must be 0..9''
              | None \<Rightarrow> Inl ''invalid COMPRESSION_LEVEL'')
      else if key = ''COMPRESSION_MIN_SIZE'' then
        Some (set_number parse_u64 key val (\<lambda>n. sc\<lparr>sc_compression_min_size := n\<rparr>))
      else if key = ''COMPRESSION_MIME'' then
        Some (if contains_any val [CHR ''/''] \<and> \<not> contains_any val [CR, LF, NUL]
              then Inr (sc\<lparr>sc_compression_mime_types :=
                     sc_compression_mime_types sc @ [to_ascii_lowercase val]\<rparr>)
              else Inl ''invalid COMPRESSION_MIME'')
      else None)"

definition key_health :: "string \<Rightarrow> string \<Rightarrow> server_config \<Rightarrow> (string + server_config) option" where
  "key_health key val sc =
     (if key \<notin> {''UPSTREAM_HEALTH_INTERVAL'', ''UPSTREAM_HEALTH_TIMEOUT'',
               ''UPSTREAM_HEALTH_FAILURES'', ''UPSTREAM_HEALTH_RECOVERY''} then None
      else
        Some (case parse_u64 val of
                None \<Rightarrow> Inl (''invalid '' @ key)
              | Some n \<Rightarrow>
                  if n = 0 then Inl (key @ '' must be greater than zero'')
                  else if key = ''UPSTREAM_HEALTH_INTERVAL'' then
                    Inr (sc\<lparr>sc_upstream_health_interval := min n 86400\<rparr>)
                  else if key = ''UPSTREAM_HEALTH_TIMEOUT'' then
                    Inr (sc\<lparr>sc_upstream_health_timeout := min n 300\<rparr>)
                  else if key = ''UPSTREAM_HEALTH_FAILURES'' then
                    Inr (sc\<lparr>sc_upstream_health_failures := min n (2 ^ 32 - 1)\<rparr>)
                  else Inr (sc\<lparr>sc_upstream_health_recovery := min n (2 ^ 32 - 1)\<rparr>)))"

definition key_rates :: "string \<Rightarrow> string \<Rightarrow> server_config \<Rightarrow> (string + server_config) option" where
  "key_rates key val sc =
     (if key = ''RATE_LIMIT_PER_SECOND'' then
        Some (set_number parse_u32 key val (\<lambda>n. sc\<lparr>sc_rate_limit_per_second := n\<rparr>))
      else if key = ''RATE_LIMIT_BURST'' then
        Some (set_number parse_u32 key val (\<lambda>n. sc\<lparr>sc_rate_limit_burst := n\<rparr>))
      else if key = ''MAX_CONNECTIONS_PER_IP'' then
        Some (set_number parse_usize key val (\<lambda>n. sc\<lparr>sc_max_connections_per_ip := n\<rparr>))
      else None)"

definition key_security :: "string \<Rightarrow> string \<Rightarrow> server_config \<Rightarrow> (string + server_config) option" where
  "key_security key val sc =
     (if key \<notin> {''SECURITY_X_CONTENT_TYPE_OPTIONS'', ''SECURITY_REFERRER_POLICY'',
               ''SECURITY_X_FRAME_OPTIONS'', ''SECURITY_CONTENT_SECURITY_POLICY''} then None
      else
        Some (if \<not> valid_header_value val then Inl (''invalid '' @ key @ '' value'')
              else if key = ''SECURITY_X_CONTENT_TYPE_OPTIONS'' then
                Inr (sc\<lparr>sc_security_x_content_type_options := Some val\<rparr>)
              else if key = ''SECURITY_REFERRER_POLICY'' then
                Inr (sc\<lparr>sc_security_referrer_policy := Some val\<rparr>)
              else if key = ''SECURITY_X_FRAME_OPTIONS'' then
                Inr (sc\<lparr>sc_security_x_frame_options := Some val\<rparr>)
              else Inr (sc\<lparr>sc_security_content_security_policy := Some val\<rparr>)))"

definition bool_word :: "string \<Rightarrow> bool option" where
  "bool_word v =
     (if v = ''true'' \<or> v = ''1'' \<or> v = ''yes'' then Some True
      else if v = ''false'' \<or> v = ''0'' \<or> v = ''no'' then Some False else None)"

definition key_tls :: "string \<Rightarrow> string \<Rightarrow> server_config \<Rightarrow> (string + server_config) option" where
  "key_tls key val sc =
     (if key = ''TLS_ENABLED'' then
        Some (case bool_word (to_ascii_lowercase val) of
                Some b \<Rightarrow> Inr (sc\<lparr>sc_tls_enabled := b\<rparr>)
              | None \<Rightarrow> Inl ''TLS_ENABLED must be boolean (true/false)'')
      else if key = ''TLS_CERTIFICATE'' then
        Some (if val = [] then Inl ''TLS_CERTIFICATE cannot be empty''
              else Inr (sc\<lparr>sc_tls_certificate := Some val\<rparr>))
      else if key = ''TLS_PRIVATE_KEY'' then
        Some (if val = [] then Inl ''TLS_PRIVATE_KEY cannot be empty''
              else Inr (sc\<lparr>sc_tls_private_key := Some val\<rparr>))
      else None)"

definition nth_opt :: "'a list \<Rightarrow> nat \<Rightarrow> 'a option" where
  "nth_opt xs i = (if i < length xs then Some (xs ! i) else None)"

definition key_routes :: "string \<Rightarrow> string \<Rightarrow> server_config \<Rightarrow> (string + server_config) option" where
  "key_routes key val sc =
     (let fs = split_whitespace val in
      if key = ''VHOST'' then
        Some (if length fs < 2 \<or> length fs > 5 \<or> contains_any (fs ! 0) [CHR ''/''] \<or> contains_any (fs ! 0) [CHR '':'']
              then Inl ''VHOST expects host root [rule-file]''
              else Inr (sc\<lparr>sc_vhosts := sc_vhosts sc @
                     [\<lparr>vh_host = to_ascii_lowercase (fs ! 0), vh_root_dir = fs ! 1,
                       vh_config_file = nth_opt fs 2, vh_tls_certificate = nth_opt fs 3,
                       vh_tls_private_key = nth_opt fs 4\<rparr>]\<rparr>))
      else if key = ''PROXY'' then
        Some (if length fs \<noteq> 3 \<or> \<not> valid_route_prefix (fs ! 1) \<or> \<not> valid_upstream (fs ! 2)
              then Inl ''PROXY expects host prefix http://host:port''
              else Inr (sc\<lparr>sc_proxy_routes := sc_proxy_routes sc @
                     [\<lparr>pr_host = to_ascii_lowercase (fs ! 0), pr_prefix = fs ! 1,
                       pr_upstream = fs ! 2\<rparr>]\<rparr>))
      else if key = ''FASTCGI'' then
        Some (if length fs \<noteq> 4 \<or> \<not> valid_route_prefix (fs ! 1) \<or> \<not> valid_fastcgi_endpoint (fs ! 2)
                 \<or> fs ! 3 = []
              then Inl ''FASTCGI expects host prefix unix:/path|tcp://host:port document-root''
              else Inr (sc\<lparr>sc_fastcgi_routes := sc_fastcgi_routes sc @
                     [\<lparr>fr_host = to_ascii_lowercase (fs ! 0), fr_prefix = fs ! 1,
                       fr_endpoint = fs ! 2, fr_document_root = fs ! 3\<rparr>]\<rparr>))
      else if key = ''FRONT_CONTROLLER'' then
        Some (if \<not> valid_front_controller_path val
              then Inl ''FRONT_CONTROLLER must be a safe absolute URL path''
              else Inr (sc\<lparr>sc_front_controller := Some val\<rparr>))
      else None)"

text \<open>The first group that knows the key.\<close>

definition server_key :: "string \<Rightarrow> string \<Rightarrow> server_config \<Rightarrow> (string + server_config) option" where
  "server_key key val sc =
     (case key_listen key val sc of Some r \<Rightarrow> Some r | None \<Rightarrow>
      case key_sizes key val sc of Some r \<Rightarrow> Some r | None \<Rightarrow>
      case key_timeouts key val sc of Some r \<Rightarrow> Some r | None \<Rightarrow>
      case key_logs key val sc of Some r \<Rightarrow> Some r | None \<Rightarrow>
      case key_compression key val sc of Some r \<Rightarrow> Some r | None \<Rightarrow>
      case key_health key val sc of Some r \<Rightarrow> Some r | None \<Rightarrow>
      case key_rates key val sc of Some r \<Rightarrow> Some r | None \<Rightarrow>
      case key_security key val sc of Some r \<Rightarrow> Some r | None \<Rightarrow>
      case key_tls key val sc of Some r \<Rightarrow> Some r | None \<Rightarrow> key_routes key val sc)"

text \<open>The keys that directory files may set too.\<close>

definition dir_key :: "bool \<Rightarrow> string \<Rightarrow> string \<Rightarrow> server_config \<times> directory_config \<Rightarrow>
    string + (server_config \<times> directory_config)" where
  "dir_key is_root key val cfg =
     (case cfg of (sc, dc) \<Rightarrow>
      if key = ''DENY_HIDDEN_FILES'' then
        (case bool_word (to_ascii_lowercase val) of
           Some b \<Rightarrow> Inr (if is_root then sc\<lparr>sc_deny_hidden_files := b\<rparr> else sc,
                          dc\<lparr>dc_deny_hidden_files := Some b\<rparr>)
         | None \<Rightarrow> Inl ''DENY_HIDDEN_FILES must be boolean (true/false)'')
      else if key = ''DENY_IP'' then
        (case parse_ip val of
           Some ip \<Rightarrow> Inr (sc, dc\<lparr>dc_deny_ips := dc_deny_ips dc @ [ip]\<rparr>)
         | None \<Rightarrow> Inl ''invalid IP address'')
      else if key = ''HEADER'' then
        (case split_once (CHR '':'') val of
           Some (n, v) \<Rightarrow>
             if trim n = [] then Inl ''invalid HEADER format, expected Name: Value''
             else Inr (sc, dc\<lparr>dc_headers := dc_headers dc @ [(trim n, remove_chars [CR, LF] (trim v))]\<rparr>)
         | None \<Rightarrow> Inl ''invalid HEADER format, expected Name: Value'')
      else if key = ''REDIRECT_404'' then
        (if val = [] then Inl ''REDIRECT_404 path cannot be empty''
         else Inr (sc, dc\<lparr>dc_redirect_404 := Some val\<rparr>))
      else Inl (unknown_directive key))"

definition legacy_key :: "bool \<Rightarrow> string \<Rightarrow> string \<Rightarrow> server_config \<times> directory_config \<Rightarrow>
    string + (server_config \<times> directory_config)" where
  "legacy_key is_root key val cfg =
     (case server_key key val (fst cfg) of
        None \<Rightarrow> dir_key is_root key val cfg
      | Some r \<Rightarrow>
          if \<not> is_root then Inl (key @ '' is a root-only directive'')
          else case r of Inl m \<Rightarrow> Inl m | Inr sc \<Rightarrow> Inr (sc, snd cfg))"

section \<open>Whole files\<close>

record config_parse_error =
  pe_file_name :: string
  pe_line_number :: nat
  pe_message :: string

definition parse_line :: "bool \<Rightarrow> string \<Rightarrow> server_config \<times> directory_config \<Rightarrow>
    rule_error + (server_config \<times> directory_config)" where
  "parse_line is_root line cfg =
     (let trimmed = trim (strip_rule_comment line) in
      if trimmed = [] then Inr cfg
      else if \<not> has_unquoted_equals trimmed then
        (case parse_native_directive trimmed (snd cfg) of
           Inl e \<Rightarrow> Inl e
         | Inr dc \<Rightarrow> Inr (fst cfg, dc))
      else case split_once (CHR ''='') trimmed of
             None \<Rightarrow> Inl (Msg ''invalid directive'')
           | Some (k, v) \<Rightarrow>
               (case legacy_key is_root (trim k) (trim v) cfg of
                  Inl m \<Rightarrow> Inl (Msg m)
                | Inr cfg \<Rightarrow> Inr cfg))"

fun parse_lines :: "bool \<Rightarrow> string \<Rightarrow> nat \<Rightarrow> string list \<Rightarrow> server_config \<times> directory_config \<Rightarrow>
    config_parse_error list \<Rightarrow> (server_config \<times> directory_config \<times> config_parse_error list) option" where
  "parse_lines is_root file line_num [] cfg errs = Some (fst cfg, snd cfg, errs)"
| "parse_lines is_root file line_num (l # ls) cfg errs =
     (case parse_line is_root l cfg of
        Inr cfg' \<Rightarrow> parse_lines is_root file (line_num + 1) ls cfg' errs
      | Inl (Msg m) \<Rightarrow>
          parse_lines is_root file (line_num + 1) ls cfg
            (errs @ [\<lparr>pe_file_name = file, pe_line_number = line_num, pe_message = m\<rparr>])
      | Inl Panic \<Rightarrow> None)"

text \<open>\<open>None\<close>: the parser panicked.\<close>

definition parse_veysrule_content :: "string \<Rightarrow> string \<Rightarrow> bool \<Rightarrow>
    (server_config \<times> directory_config \<times> config_parse_error list) option" where
  "parse_veysrule_content content file is_root =
     parse_lines is_root file 1 (str_lines content) (server_config_default, directory_config_default) []"

text \<open>The file as \<open>read_to_string\<close> delivers it: \<open>None\<close> when it cannot be read.\<close>

definition parse_veysrule_file :: "string option \<Rightarrow> string \<Rightarrow> bool \<Rightarrow>
    (server_config \<times> directory_config \<times> config_parse_error list) option" where
  "parse_veysrule_file file_content file is_root =
     (case file_content of
        None \<Rightarrow> Some (server_config_default, directory_config_default, [])
      | Some content \<Rightarrow>
          if length content > MAX_RULE_FILE_BYTES then
            Some (server_config_default, directory_config_default,
              [\<lparr>pe_file_name = file, pe_line_number = 1,
                pe_message = ''rule file exceeds '' @ show_nat MAX_RULE_FILE_BYTES @ '' bytes''\<rparr>])
          else parse_veysrule_content content file is_root)"

section \<open>Directory files cannot change the server\<close>

lemma dir_key_server:
  "dir_key False key val (sc, dc) = Inr (sc', dc') \<Longrightarrow> sc' = sc"
  by (auto simp: dir_key_def split: if_splits option.splits)

lemma legacy_key_server:
  "legacy_key False key val (sc, dc) = Inr (sc', dc') \<Longrightarrow> sc' = sc"
  by (auto simp: legacy_key_def dest: dir_key_server split: option.splits)

lemma parse_line_server:
  "parse_line False l (sc, dc) = Inr (sc', dc') \<Longrightarrow> sc' = sc"
  by (auto simp: parse_line_def Let_def dest: legacy_key_server split: if_splits option.splits sum.splits)

lemma parse_lines_server:
  "parse_lines False file n ls (sc, dc) errs = Some (sc', dc', errs') \<Longrightarrow> sc' = sc"
proof (induction ls arbitrary: n dc errs)
  case (Cons l ls)
  show ?case
  proof (cases "parse_line False l (sc, dc)")
    case (Inl e)
    with Cons show ?thesis by (cases e) auto
  next
    case (Inr cfg)
    then have "cfg = (sc, snd cfg)" using parse_line_server by (cases cfg) auto
    with Cons.IH [of "n + 1" "snd cfg" errs] Cons.prems Inr show ?thesis by simp
  qed
qed simp

text \<open>
  C13. A rule file that is not the root file never changes a server setting, whatever it contains:
  every such line is reported as an error or affects the directory configuration only.
\<close>

theorem directory_file_server_unchanged:
  assumes "parse_veysrule_content content file False = Some (sc, dc, errs)"
  shows "sc = server_config_default"
  using assms parse_lines_server unfolding parse_veysrule_content_def by blast

theorem directory_file_server_unchanged_witness:
  "\<exists>dc. parse_veysrule_content (''PORT = 99'' @ [LF] @ ''DENY_IP = 10.0.0.1'') ''f'' False =
     Some (server_config_default, dc,
       [\<lparr>pe_file_name = ''f'', pe_line_number = 1, pe_message = ''PORT is a root-only directive''\<rparr>])
     \<and> dc_deny_ips dc = [V4 0x0A000001]"
proof -
  let ?c = "''PORT = 99'' @ [LF] @ ''DENY_IP = 10.0.0.1''"
  let ?r = "parse_veysrule_content ?c ''f'' False"
  have d: "map_option (\<lambda>r. dc_deny_ips (fst (snd r))) ?r = Some [V4 0x0A000001]" by code_simp
  have e: "map_option (\<lambda>r. snd (snd r)) ?r = Some
       [\<lparr>pe_file_name = ''f'', pe_line_number = 1, pe_message = ''PORT is a root-only directive''\<rparr>]"
    by code_simp
  obtain sc dc errs where r: "?r = Some (sc, dc, errs)" using d by (cases ?r) auto
  with directory_file_server_unchanged [OF r] d e show ?thesis by simp
qed

section \<open>What a parsed configuration guarantees\<close>

definition server_config_ok :: "server_config \<Rightarrow> bool" where
  "server_config_ok sc \<longleftrightarrow>
     1 \<le> sc_port sc \<and> sc_port sc \<le> 65535 \<and> sc_root_dir sc \<noteq> []
     \<and> sc_compression_level sc \<le> 9 \<and> sc_log_format sc \<in> {''text'', ''json''}
     \<and> sc_upstream_health_interval sc \<le> 86400 \<and> sc_upstream_health_timeout sc \<in> {1..300}
     \<and> 1 \<le> sc_upstream_health_failures sc \<and> 1 \<le> sc_upstream_health_recovery sc
     \<and> list_all (\<lambda>r. valid_route_prefix (pr_prefix r) \<and> valid_upstream (pr_upstream r)) (sc_proxy_routes sc)
     \<and> list_all (\<lambda>r. valid_route_prefix (fr_prefix r) \<and> valid_fastcgi_endpoint (fr_endpoint r)
          \<and> fr_document_root r \<noteq> []) (sc_fastcgi_routes sc)
     \<and> pred_option valid_front_controller_path (sc_front_controller sc)
     \<and> pred_option valid_header_value (sc_security_x_content_type_options sc)
     \<and> pred_option valid_header_value (sc_security_referrer_policy sc)
     \<and> pred_option valid_header_value (sc_security_x_frame_options sc)
     \<and> pred_option valid_header_value (sc_security_content_security_policy sc)"

lemma server_config_default_ok: "server_config_ok server_config_default"
  by (simp add: server_config_ok_def server_config_default_def valid_header_value_def contains_any_def)

lemma key_listen_ok: "key_listen k v sc = Some (Inr sc') \<Longrightarrow> server_config_ok sc \<Longrightarrow> server_config_ok sc'"
  by (auto simp: key_listen_def server_config_ok_def split: if_splits option.splits dest: from_str_radix_bound)

lemma key_sizes_ok: "key_sizes k v sc = Some (Inr sc') \<Longrightarrow> server_config_ok sc \<Longrightarrow> server_config_ok sc'"
  by (auto simp: key_sizes_def set_number_def server_config_ok_def split: if_splits option.splits)

lemma key_timeouts_ok: "key_timeouts k v sc = Some (Inr sc') \<Longrightarrow> server_config_ok sc \<Longrightarrow> server_config_ok sc'"
  by (auto simp: key_timeouts_def set_number_def server_config_ok_def split: if_splits option.splits)

lemma key_logs_ok: "key_logs k v sc = Some (Inr sc') \<Longrightarrow> server_config_ok sc \<Longrightarrow> server_config_ok sc'"
  by (auto simp: key_logs_def server_config_ok_def split: if_splits)

lemma key_compression_ok:
  "key_compression k v sc = Some (Inr sc') \<Longrightarrow> server_config_ok sc \<Longrightarrow> server_config_ok sc'"
  by (auto simp: key_compression_def set_number_def server_config_ok_def Let_def split: if_splits option.splits)

lemma key_health_ok: "key_health k v sc = Some (Inr sc') \<Longrightarrow> server_config_ok sc \<Longrightarrow> server_config_ok sc'"
  by (auto simp: key_health_def server_config_ok_def split: if_splits option.splits)

lemma key_rates_ok: "key_rates k v sc = Some (Inr sc') \<Longrightarrow> server_config_ok sc \<Longrightarrow> server_config_ok sc'"
  by (auto simp: key_rates_def set_number_def server_config_ok_def split: if_splits option.splits)

lemma key_security_ok: "key_security k v sc = Some (Inr sc') \<Longrightarrow> server_config_ok sc \<Longrightarrow> server_config_ok sc'"
  by (auto simp: key_security_def server_config_ok_def split: if_splits)

lemma key_tls_ok: "key_tls k v sc = Some (Inr sc') \<Longrightarrow> server_config_ok sc \<Longrightarrow> server_config_ok sc'"
  by (auto simp: key_tls_def server_config_ok_def split: if_splits option.splits)

lemma key_routes_ok: "key_routes k v sc = Some (Inr sc') \<Longrightarrow> server_config_ok sc \<Longrightarrow> server_config_ok sc'"
  by (auto simp: key_routes_def Let_def server_config_ok_def split: if_splits)

lemmas key_ok = key_listen_ok key_sizes_ok key_timeouts_ok key_logs_ok key_compression_ok key_health_ok
  key_rates_ok key_security_ok key_tls_ok key_routes_ok

lemma server_key_ok: "server_key k v sc = Some (Inr sc') \<Longrightarrow> server_config_ok sc \<Longrightarrow> server_config_ok sc'"
  unfolding server_key_def by (auto split: option.splits intro: key_ok)

lemma parse_line_ok:
  assumes "parse_line is_root l cfg = Inr cfg'" "server_config_ok (fst cfg)"
  shows "server_config_ok (fst cfg')"
proof -
  have hidden: "server_config_ok (sc\<lparr>sc_deny_hidden_files := b\<rparr>) = server_config_ok sc" for sc b
    by (simp add: server_config_ok_def)
  have dir: "server_config_ok (fst c')" if "dir_key is_root k v c = Inr c'" "server_config_ok (fst c)" for k v c c'
    using that by (auto simp: dir_key_def hidden split: if_splits option.splits prod.splits)
  have "server_config_ok (fst c')" if "legacy_key is_root k v c = Inr c'" "server_config_ok (fst c)" for k v c c'
    using that dir by (auto simp: legacy_key_def intro: server_key_ok split: option.splits if_splits sum.splits)
  then show ?thesis
    using assms by (cases cfg) (auto simp: parse_line_def Let_def split: if_splits option.splits sum.splits)
qed

lemma parse_lines_ok:
  "parse_lines is_root file n ls cfg errs = Some (sc, dc, errs') \<Longrightarrow> server_config_ok (fst cfg) \<Longrightarrow>
   server_config_ok sc"
proof (induction ls arbitrary: n cfg errs)
  case (Cons l ls)
  show ?case
  proof (cases "parse_line is_root l cfg")
    case (Inl e)
    with Cons show ?thesis by (cases e) auto
  next
    case (Inr cfg')
    with Cons.IH [of "n + 1" cfg' errs] Cons.prems parse_line_ok [OF Inr] show ?thesis by simp
  qed
qed simp

text \<open>
  C14. Whatever a rule file contains, the server configuration that its parser returns is in range:
  a valid port, compression level and health parameters, only validated routes and front
  controller, and security header values without control characters.
\<close>

theorem parsed_server_config_ok:
  assumes "parse_veysrule_content content file is_root = Some (sc, dc, errs)"
  shows "server_config_ok sc"
  using parse_lines_ok assms server_config_default_ok unfolding parse_veysrule_content_def by fastforce

theorem parsed_server_config_ok_witness:
  "\<exists>sc dc. parse_veysrule_content (''PORT = 0'' @ [LF] @ ''COMPRESSION_LEVEL = 9'') ''f'' True =
     Some (sc, dc, [\<lparr>pe_file_name = ''f'', pe_line_number = 1,
                     pe_message = ''PORT must be between 1 and 65535''\<rparr>])
     \<and> server_config_ok sc"
proof -
  let ?c = "''PORT = 0'' @ [LF] @ ''COMPRESSION_LEVEL = 9''"
  let ?r = "parse_veysrule_content ?c ''f'' True"
  have e: "map_option (\<lambda>r. snd (snd r)) ?r = Some
       [\<lparr>pe_file_name = ''f'', pe_line_number = 1, pe_message = ''PORT must be between 1 and 65535''\<rparr>]"
    by code_simp
  obtain sc dc errs where r: "?r = Some (sc, dc, errs)" using e by (cases ?r) auto
  with parsed_server_config_ok [OF r] e show ?thesis by simp
qed

section \<open>Errors are reported per line\<close>

lemma parse_lines_errors:
  assumes "parse_lines is_root file n ls cfg errs = Some (sc, dc, errs')"
  shows "\<exists>new. errs' = errs @ new \<and> sorted_wrt (<) (map pe_line_number new)
    \<and> (\<forall>e \<in> set new. n \<le> pe_line_number e \<and> pe_line_number e < n + length ls \<and> pe_file_name e = file)"
  using assms
proof (induction ls arbitrary: n cfg errs)
  case (Cons l ls)
  show ?case
  proof (cases "parse_line is_root l cfg")
    case (Inr cfg')
    with Cons.prems have "parse_lines is_root file (n + 1) ls cfg' errs = Some (sc, dc, errs')" by simp
    from Cons.IH [OF this] show ?thesis by force
  next
    case (Inl e)
    then obtain m where m: "e = Msg m" using Cons.prems by (cases e) auto
    let ?e = "\<lparr>pe_file_name = file, pe_line_number = n, pe_message = m\<rparr>"
    have "parse_lines is_root file (n + 1) ls cfg (errs @ [?e]) = Some (sc, dc, errs')"
      using Cons.prems Inl m by simp
    from Cons.IH [OF this] obtain new where
      "errs' = errs @ ?e # new" "sorted_wrt (<) (map pe_line_number new)"
      "\<forall>e \<in> set new. n + 1 \<le> pe_line_number e \<and> pe_line_number e < n + 1 + length ls \<and> pe_file_name e = file"
      by auto
    then show ?thesis by (intro exI [of _ "?e # new"]) auto
  qed
qed simp

text \<open>
  C15. The parser reports at most one error per line, in the order of the lines, each with the
  file's name and a line number that exists in the file.
\<close>

theorem parse_errors_located:
  assumes "parse_veysrule_content content file is_root = Some (sc, dc, errs)"
  shows "sorted_wrt (<) (map pe_line_number errs) \<and> length errs \<le> length (str_lines content)
    \<and> (\<forall>e \<in> set errs. 1 \<le> pe_line_number e \<and> pe_line_number e \<le> length (str_lines content)
          \<and> pe_file_name e = file)"
proof -
  have e: "sorted_wrt (<) (map pe_line_number errs)"
    "\<forall>e \<in> set errs. 1 \<le> pe_line_number e \<and> pe_line_number e < 1 + length (str_lines content) \<and> pe_file_name e = file"
    using parse_lines_errors assms unfolding parse_veysrule_content_def by fastforce+
  have "set (map pe_line_number errs) \<subseteq> {1..length (str_lines content)}" using e(2) by auto
  then have "card (set (map pe_line_number errs)) \<le> length (str_lines content)"
    using card_mono [of "{1..length (str_lines content)}"] by fastforce
  moreover have "distinct (map pe_line_number errs)"
    using e(1) by (simp add: strict_sorted_iff)
  ultimately show ?thesis using e distinct_card [of "map pe_line_number errs"] by auto
qed

theorem parse_errors_located_witness:
  "\<exists>sc dc errs. parse_veysrule_content (''frob'' @ [LF] @ ''cache on'' @ [LF] @ ''PORT = x'') ''f'' True =
     Some (sc, dc, errs) \<and> map pe_line_number errs = [1, 3]
     \<and> length errs \<le> length (str_lines (''frob'' @ [LF] @ ''cache on'' @ [LF] @ ''PORT = x''))"
proof -
  let ?c = "''frob'' @ [LF] @ ''cache on'' @ [LF] @ ''PORT = x''"
  let ?r = "parse_veysrule_content ?c ''f'' True"
  have e: "map_option (\<lambda>r. map pe_line_number (snd (snd r))) ?r = Some [1, 3]" by code_simp
  obtain sc dc errs where r: "?r = Some (sc, dc, errs)" using e by (cases ?r) auto
  with parse_errors_located [OF r] e show ?thesis by auto
qed

section \<open>Quoting\<close>

text \<open>How a rule file writes an arbitrary token: in quotes, with the special characters escaped.\<close>

definition quote_char :: "char \<Rightarrow> string" where
  "quote_char c =
     (if c = DQ \<or> c = BSLASH then [BSLASH, c]
      else if c = LF then [BSLASH, CHR ''n''] else if c = CR then [BSLASH, CHR ''r'']
      else if c = CHR 0x09 then [BSLASH, CHR ''t''] else [c])"

definition quote :: "string \<Rightarrow> string" where
  "quote s = [DQ] @ concat (map quote_char s) @ [DQ]"

lemma tokenize_quoted_body:
  "tokenize_from (concat (map quote_char s) @ r) cur True False = tokenize_from r (rev s @ cur) True False"
proof (induction s arbitrary: cur)
  case (Cons c s)
  have "tokenize_from (quote_char c @ t) cur True False = tokenize_from t (c # cur) True False" for t
    unfolding quote_char_def
    by (auto simp: tokenize_from.simps [of "_ # _"] unescape_def split: if_splits)
  then show ?case using Cons.IH [of "c # cur"] by simp
qed simp

text \<open>
  C16. Any non-empty token, whatever characters it contains, can be written in a rule file: the
  tokenizer reads its quoted form back exactly.
\<close>

theorem tokenize_quote:
  assumes "s \<noteq> []"
  shows "tokenize_rule_line (quote s) = Inr [s]"
proof -
  have "tokenize_rule_line (quote s) = tokenize_from (concat (map quote_char s) @ [DQ]) [] True False"
    unfolding tokenize_rule_line_def quote_def by (subst tokenize_from.simps) simp
  also have "\<dots> = tokenize_from [] (rev s) False False"
    unfolding tokenize_quoted_body by (subst tokenize_from.simps) simp
  also have "\<dots> = Inr [s]" using assms by (subst tokenize_from.simps) (simp add: push_token_def)
  finally show ?thesis .
qed

theorem tokenize_quote_witness:
  "tokenize_rule_line (quote (''a b'' @ [DQ, LF, BSLASH] @ ''#'')) = Inr [''a b'' @ [DQ, LF, BSLASH] @ ''#'']"
  by (rule tokenize_quote) simp

end
