(* ===== verification/Config_Manager.thy ===== *)
theory Config_Manager
  imports Config_Parse
begin

text \<open>
  The rule cache (\<open>ConfigManager\<close> in \<open>src/src/config/veysrule.rs\<close>): loading a rule file with
  the generation check, loading beneath the document root without following symbolic links, the
  cumulative configuration of a directory, preloading and validating a document tree. A load has
  two atomic parts, before and after the file is parsed, so that a concurrent \<open>clear_cache\<close>
  between them is a step of its own.
\<close>

section \<open>Files\<close>

text \<open>
  A document tree as \<open>openat\<close> with \<open>O_NOFOLLOW\<close> sees it. A file has its content, \<open>None\<close> when it
  cannot be read as UTF-8, and its modification time where the system reports one.
\<close>

datatype fs_node =
    Dir "nat option" "(string \<times> fs_node) list"
  | File "string option" "nat option"
  | Symlink string

text \<open>\<open>Path::components\<close> of a relative path; \<open>None\<close> stands for a component that is not normal.\<close>

definition path_components :: "string \<Rightarrow> string option list" where
  "path_components p =
     (if starts_with p ''/'' then [None] else []) @
     map (\<lambda>c. if c = ''..'' then None else Some c)
       (filter (\<lambda>c. c \<noteq> [] \<and> c \<noteq> ''.'') (split_char (CHR ''/'') p))"

definition join_path :: "string \<Rightarrow> string \<Rightarrow> string" where
  "join_path a b = (if a = [] then b else if ends_with a ''/'' then a @ b else a @ ''/'' @ b)"

fun walk_beneath :: "fs_node \<Rightarrow> string list \<Rightarrow> fs_node option" where
  "walk_beneath n [] = Some n"
| "walk_beneath (Dir t es) (c # cs) =
     (case map_of es c of None \<Rightarrow> None | Some n \<Rightarrow> walk_beneath n cs)"
| "walk_beneath _ (c # cs) = None"

text \<open>
  \<open>read_rule_file_beneath\<close>: every component must be normal and free of NUL, all but the last must
  be directories, the last a readable file.
\<close>

definition read_rule_file_beneath :: "fs_node option \<Rightarrow> string \<Rightarrow> (string \<times> nat option) option" where
  "read_rule_file_beneath root relative =
     (case root of
        None \<Rightarrow> None
      | Some tree \<Rightarrow>
          (let cs = path_components relative in
           if cs = [] \<or> None \<in> set cs then None
           else if list_ex (\<lambda>c. contains_any (the c) [NUL]) cs then None
           else case walk_beneath tree (map the cs) of
                  Some (File (Some content) mtime) \<Rightarrow> Some (content, mtime)
                | _ \<Rightarrow> None))"

section \<open>The cache\<close>

record cache_entry =
  ce_config :: directory_config
  ce_mtime :: "nat option"
  ce_generation :: nat

record config_manager =
  cm_cache :: "(string \<times> cache_entry) list"
  cm_generation :: nat
  cm_error_log :: string

definition manager_new :: "string \<Rightarrow> config_manager" where
  "manager_new destination = \<lparr>cm_cache = [], cm_generation = 0, cm_error_log = destination\<rparr>"

definition set_error_log :: "config_manager \<Rightarrow> string \<Rightarrow> config_manager" where
  "set_error_log m destination = m\<lparr>cm_error_log := destination\<rparr>"

text \<open>The generation is an \<open>AtomicU64\<close>.\<close>

definition clear_cache :: "config_manager \<Rightarrow> config_manager" where
  "clear_cache m = m\<lparr>cm_generation := (cm_generation m + 1) mod 2 ^ 64, cm_cache := []\<rparr>"

definition cached :: "config_manager \<Rightarrow> string \<Rightarrow> bool \<Rightarrow> nat option \<Rightarrow> directory_config option" where
  "cached m key dev_mode mtime =
     (case map_of (cm_cache m) key of
        None \<Rightarrow> None
      | Some e \<Rightarrow>
          if ce_generation e = cm_generation m
             \<and> (dev_mode \<longrightarrow> ce_mtime e = mtime \<and> mtime \<noteq> None)
          then Some (ce_config e) else None)"

text \<open>
  The second part of a load, after parsing: the entry is stored unless the generation moved on
  since the load began.
\<close>

definition store_parsed :: "config_manager \<Rightarrow> nat \<Rightarrow> string \<Rightarrow> directory_config \<Rightarrow> nat option \<Rightarrow> config_manager" where
  "store_parsed m generation key dc mtime =
     (if cm_generation m = generation
      then m\<lparr>cm_cache := AList.update key
               \<lparr>ce_config = dc, ce_mtime = mtime, ce_generation = generation\<rparr> (cm_cache m)\<rparr>
      else m)"

text \<open>
  The outcome of a load: the configuration if there is one, and the warnings written to the
  error log. \<open>None\<close>: the parser panicked.
\<close>

type_synonym load_result = "config_manager \<times> directory_config option \<times> string list"

definition warn_errors :: "config_parse_error list \<Rightarrow> string list" where
  "warn_errors errs =
     map (\<lambda>e. ''Config error: '' @ pe_file_name e @ '':'' @ show_nat (pe_line_number e) @ '': '' @ pe_message e) errs"

definition load_parsed :: "config_manager \<Rightarrow> string \<Rightarrow> bool \<Rightarrow> nat option \<Rightarrow>
    (server_config \<times> directory_config \<times> config_parse_error list) option \<Rightarrow> load_result option" where
  "load_parsed m key dev_mode mtime parsed =
     (case cached m key dev_mode mtime of
        Some dc \<Rightarrow> Some (m, Some dc, [])
      | None \<Rightarrow>
          (case parsed of
             None \<Rightarrow> None
           | Some (_, dc, errs) \<Rightarrow>
               if errs \<noteq> [] then Some (m, None, warn_errors errs)
               else Some (store_parsed m (cm_generation m) key dc mtime, Some dc, [])))"

text \<open>\<open>load_dir_config\<close> on the node that the rule path names: \<open>None\<close> when there is none.\<close>

definition load_dir_config :: "config_manager \<Rightarrow> fs_node option \<Rightarrow> string \<Rightarrow> bool \<Rightarrow> bool \<Rightarrow> load_result option" where
  "load_dir_config m file rule_path dev_mode is_root =
     (case file of
        None \<Rightarrow> Some (m, None, [])
      | Some (Symlink _) \<Rightarrow> Some (m, None, [''ignoring symlinked rule file '' @ rule_path])
      | Some (Dir mtime _) \<Rightarrow> load_parsed m rule_path dev_mode mtime (parse_veysrule_file None rule_path is_root)
      | Some (File content mtime) \<Rightarrow>
          load_parsed m rule_path dev_mode mtime (parse_veysrule_file content rule_path is_root))"

definition load_dir_config_beneath ::
  "config_manager \<Rightarrow> fs_node option \<Rightarrow> string \<Rightarrow> string \<Rightarrow> bool \<Rightarrow> bool \<Rightarrow> load_result option" where
  "load_dir_config_beneath m root root_dir relative dev_mode is_root =
     (let key = join_path root_dir relative in
      case read_rule_file_beneath root relative of
        None \<Rightarrow> Some (m, None, [])
      | Some (content, mtime) \<Rightarrow>
          load_parsed m key dev_mode mtime (parse_veysrule_content content key is_root))"

section \<open>The configuration of a directory\<close>

text \<open>The directories from the root down to the requested one.\<close>

fun dirs_to_check :: "string \<Rightarrow> string option list \<Rightarrow> string list" where
  "dirs_to_check cur [] = []"
| "dirs_to_check cur (None # cs) = dirs_to_check cur cs"
| "dirs_to_check cur (Some c # cs) = join_path cur c # dirs_to_check (join_path cur c) cs"

fun merge_dirs :: "config_manager \<Rightarrow> fs_node option \<Rightarrow> string \<Rightarrow> bool \<Rightarrow> string list \<Rightarrow> directory_config \<Rightarrow>
    string list \<Rightarrow> (config_manager \<times> directory_config \<times> string list) option" where
  "merge_dirs m root root_dir dev_mode [] acc ws = Some (m, acc, ws)"
| "merge_dirs m root root_dir dev_mode (d # ds) acc ws =
     (case load_dir_config_beneath m root root_dir (join_path d ''.veysrule'') dev_mode False of
        None \<Rightarrow> None
      | Some (m', dc, w) \<Rightarrow>
          merge_dirs m' root root_dir dev_mode ds
            (case dc of None \<Rightarrow> acc | Some dc \<Rightarrow> merge acc dc) (ws @ w))"

definition get_config_for_dir :: "config_manager \<Rightarrow> (string \<times> fs_node option) option \<Rightarrow> fs_node option \<Rightarrow>
    string \<Rightarrow> string \<Rightarrow> bool \<Rightarrow> (config_manager \<times> directory_config \<times> string list) option" where
  "get_config_for_dir m root_config root root_dir rel_path dev_mode =
     (case (case root_config of
              None \<Rightarrow> Some (m, None, [])
            | Some (path, file) \<Rightarrow> load_dir_config m file path dev_mode True) of
        None \<Rightarrow> None
      | Some (m', base, ws) \<Rightarrow>
          merge_dirs m' root root_dir dev_mode ([] # dirs_to_check [] (path_components rel_path))
            (case base of None \<Rightarrow> directory_config_default
             | Some dc \<Rightarrow> merge directory_config_default dc) ws)"

section \<open>Walking the document tree\<close>

text \<open>
  The stack loop shared by \<open>validate_veysrule_tree\<close> and \<open>preload_tree\<close>: the rule files below a
  directory, with their paths, in the order of the visits. Symbolic links are skipped.
\<close>

fun rule_files_in :: "string \<Rightarrow> (string \<times> fs_node) list \<Rightarrow> (string \<times> fs_node) list" where
  "rule_files_in dir [] = []"
| "rule_files_in dir ((name, File c t) # es) =
     (if name = ''.veysrule'' then [(join_path dir name, File c t)] else []) @ rule_files_in dir es"
| "rule_files_in dir (_ # es) = rule_files_in dir es"

fun sub_dirs_in :: "string \<Rightarrow> (string \<times> fs_node) list \<Rightarrow> (string \<times> (string \<times> fs_node) list) list" where
  "sub_dirs_in dir [] = []"
| "sub_dirs_in dir ((name, Dir t es') # es) = (join_path dir name, es') # sub_dirs_in dir es"
| "sub_dirs_in dir (_ # es) = sub_dirs_in dir es"

fun node_size :: "fs_node \<Rightarrow> nat" where
  "node_size (Dir t es) = Suc (sum_list (map (\<lambda>e. node_size (snd e)) es))"
| "node_size _ = 1"

abbreviation entries_size :: "(string \<times> fs_node) list \<Rightarrow> nat" where
  "entries_size es \<equiv> sum_list (map (\<lambda>e. node_size (snd e)) es)"

lemma sub_dirs_size:
  "sum_list (map (\<lambda>d. Suc (entries_size (snd d))) (sub_dirs_in dir es)) \<le> entries_size es"
  by (induction dir es rule: sub_dirs_in.induct) auto

function walk_tree :: "(string \<times> (string \<times> fs_node) list) list \<Rightarrow> (string \<times> fs_node) list" where
  "walk_tree [] = []"
| "walk_tree ((dir, es) # stack) =
     rule_files_in dir es @ walk_tree (rev (sub_dirs_in dir es) @ stack)"
  by pat_completeness auto
termination
proof (relation "measure (\<lambda>stack. sum_list (map (\<lambda>d. Suc (entries_size (snd d))) stack))", goal_cases)
  case (2 dir es stack)
  then show ?case using sub_dirs_size [of dir es] by (simp add: rev_map [symmetric])
qed simp

fun collect_errors :: "(string \<times> fs_node) list \<Rightarrow> config_parse_error list option" where
  "collect_errors [] = Some []"
| "collect_errors ((path, n) # fs) =
     (case parse_veysrule_file (case n of File c _ \<Rightarrow> c | _ \<Rightarrow> None) path False of
        None \<Rightarrow> None
      | Some (_, _, errs) \<Rightarrow> map_option (\<lambda>es. errs @ es) (collect_errors fs))"

text \<open>
  \<open>root_dir\<close> is the tree at the document root, \<open>None\<close> if it cannot be listed; \<open>root_config\<close> is
  the root rule file with the content that reading it gives, if it exists.
\<close>

definition validate_veysrule_tree :: "string \<Rightarrow> fs_node option \<Rightarrow> (string \<times> string option option) option \<Rightarrow>
    config_parse_error list option" where
  "validate_veysrule_tree root_dir root root_config =
     (case (case root_config of
              Some (path, Some content) \<Rightarrow>
                map_option (\<lambda>(_, _, errs). errs) (parse_veysrule_file content path True)
            | _ \<Rightarrow> Some []) of
        None \<Rightarrow> None
      | Some errs \<Rightarrow>
          (let files = (case root of Some (Dir _ es) \<Rightarrow> walk_tree [(root_dir, es)] | _ \<Rightarrow> []) in
           map_option (\<lambda>es. errs @ es)
             (collect_errors (filter (\<lambda>f. map_option fst root_config \<noteq> Some (fst f)) files))))"

fun preload_files :: "config_manager \<Rightarrow> fs_node option \<Rightarrow> string \<Rightarrow> (string \<times> fs_node) list \<Rightarrow> config_manager option" where
  "preload_files m root root_dir [] = Some m"
| "preload_files m root root_dir ((path, _) # fs) =
     (case strip_prefix (join_path root_dir []) path of
        None \<Rightarrow> preload_files m root root_dir fs
      | Some relative \<Rightarrow>
          (case load_dir_config_beneath m root root_dir relative False False of
             None \<Rightarrow> None
           | Some (m', _, _) \<Rightarrow> preload_files m' root root_dir fs))"

definition preload_tree :: "config_manager \<Rightarrow> (string \<times> fs_node option) option \<Rightarrow> string \<Rightarrow> fs_node option \<Rightarrow>
    config_manager option" where
  "preload_tree m root_config root_dir root =
     (case (case root_config of
              None \<Rightarrow> Some m
            | Some (path, file) \<Rightarrow> map_option fst (load_dir_config m file path False True)) of
        None \<Rightarrow> None
      | Some m' \<Rightarrow>
          (let files = (case root of Some (Dir _ es) \<Rightarrow> walk_tree [(root_dir, es)] | _ \<Rightarrow> []) in
           preload_files m' root root_dir
             (filter (\<lambda>f. map_option fst root_config \<noteq> Some (fst f)) files)))"

section \<open>The cache never serves an older generation\<close>

text \<open>
  The atomic steps of concurrent users of one manager: clearing, and finishing a load that began
  in any earlier generation with any parse result.
\<close>

inductive manager_step :: "config_manager \<Rightarrow> config_manager \<Rightarrow> bool" where
  clear: "manager_step m (clear_cache m)"
| store: "manager_step m (store_parsed m generation key dc mtime)"
| relog: "manager_step m (set_error_log m d)"

inductive_cases manager_stepE: "manager_step m m'"

definition cache_current :: "config_manager \<Rightarrow> bool" where
  "cache_current m \<longleftrightarrow> (\<forall>(k, e) \<in> set (cm_cache m). ce_generation e = cm_generation m) \<and> distinct (map fst (cm_cache m))"

lemma cache_current_new: "cache_current (manager_new d)"
  by (simp add: cache_current_def manager_new_def)

lemma store_parsed_current: "cache_current m \<Longrightarrow> cache_current (store_parsed m g k dc t)"
  by (auto simp: cache_current_def store_parsed_def distinct_update dest!: set_al_update)

lemma manager_step_current: "manager_step m m' \<Longrightarrow> cache_current m \<Longrightarrow> cache_current m'"
  by (auto elim!: manager_stepE intro: store_parsed_current)
     (auto simp: cache_current_def clear_cache_def set_error_log_def)



section \<open>The walk visits every rule file\<close>

text \<open>The rule files below a directory that are reached without a symbolic link.\<close>

inductive tree_file :: "string \<Rightarrow> (string \<times> fs_node) list \<Rightarrow> string \<Rightarrow> fs_node \<Rightarrow> bool" where
  here: "(''.veysrule'', File c t) \<in> set es \<Longrightarrow> tree_file dir es (join_path dir ''.veysrule'') (File c t)"
| below: "(name, Dir t es') \<in> set es \<Longrightarrow> tree_file (join_path dir name) es' p n \<Longrightarrow> tree_file dir es p n"

lemma set_rule_files_in:
  "(p, n) \<in> set (rule_files_in dir es) \<longleftrightarrow>
   (\<exists>c t. n = File c t \<and> (''.veysrule'', n) \<in> set es \<and> p = join_path dir ''.veysrule'')"
  by (induction dir es rule: rule_files_in.induct) auto

lemma set_sub_dirs_in:
  "(d, es') \<in> set (sub_dirs_in dir es) \<longleftrightarrow> (\<exists>name t. (name, Dir t es') \<in> set es \<and> d = join_path dir name)"
  by (induction dir es rule: sub_dirs_in.induct) auto

lemma tree_file_iff:
  "tree_file dir es p n \<longleftrightarrow>
   (p, n) \<in> set (rule_files_in dir es) \<or> (\<exists>(d, es') \<in> set (sub_dirs_in dir es). tree_file d es' p n)"
  by (subst tree_file.simps) (fastforce simp: set_rule_files_in set_sub_dirs_in)

lemma set_walk_tree:
  "(p, n) \<in> set (walk_tree stack) \<longleftrightarrow> (\<exists>(d, es) \<in> set stack. tree_file d es p n)"
proof (induction stack rule: walk_tree.induct)
  case (2 dir es stack)
  then show ?case using tree_file_iff [of dir es p n] by auto
qed simp

text \<open>
  C18. The walk that validation and preloading share visits exactly the rule files of the document
  tree that are reached through directories only: none is skipped, and none behind a symbolic
  link is read.
\<close>

theorem walk_tree_visits: "set (walk_tree [(dir, es)]) = {(p, n). tree_file dir es p n}"
  by (auto simp: set_walk_tree simp del: walk_tree.simps)

end
