(* ===== verification/Url.thy ===== *)
theory Url
  imports Config_Manager Telemetry
begin

text \<open>
  Request targets and escaping (\<open>src/src/router/handler.rs\<close>): percent decoding, the normalisation of
  a path below the document root, the checks for hidden and protected names, and the escaping of names
  in directory listings and log lines.
\<close>

section \<open>Percent decoding\<close>

text \<open>
  The loop of \<open>percent_decode_single\<close>. The two bytes after a percent sign must be UTF-8 and a number in
  \<open>u8::from_str_radix\<close>, which accepts a leading plus sign.
\<close>

fun percent_bytes :: "bytes \<Rightarrow> bytes option" where
  "percent_bytes [] = Some []"
| "percent_bytes (b # bs) =
     (if b = 0x25 then
        (case bs of
           h1 # h2 # rest \<Rightarrow>
             (case from_utf8 [h1, h2] of
                None \<Rightarrow> None
              | Some hex_str \<Rightarrow>
                  (case from_str_radix 16 255 hex_str of
                     None \<Rightarrow> None
                   | Some v \<Rightarrow> map_option ((#) (of_nat v)) (percent_bytes rest)))
         | _ \<Rightarrow> None)
      else map_option ((#) b) (percent_bytes bs))"

definition percent_decode_single :: "string \<Rightarrow> string option" where
  "percent_decode_single input = (case percent_bytes (str_bytes input) of None \<Rightarrow> None | Some bs \<Rightarrow> from_utf8 bs)"

fun percent_decode_passes :: "nat \<Rightarrow> string \<Rightarrow> string option" where
  "percent_decode_passes 0 decoded = Some decoded"
| "percent_decode_passes (Suc n) decoded =
     (if \<not> contains_any decoded [CHR ''%''] then Some decoded
      else case percent_decode_single decoded of
             None \<Rightarrow> None
           | Some next_str \<Rightarrow>
               if next_str = decoded then Some decoded else percent_decode_passes n next_str)"

definition percent_decode_recursive :: "string \<Rightarrow> string option" where
  "percent_decode_recursive input = percent_decode_passes 4 input"

section \<open>Paths below the root\<close>

text \<open>\<open>PathBuf::push\<close>.\<close>

definition path_push :: "string \<Rightarrow> string \<Rightarrow> string" where
  "path_push p q = (if starts_with q ''/'' then q else join_path p q)"

text \<open>
  The components of a path other than the root and \<open>.\<close>; \<open>..\<close> is the parent directory, every other
  one is a normal component.
\<close>

definition uri_components :: "string \<Rightarrow> string list" where
  "uri_components uri = filter (\<lambda>c. c \<noteq> [] \<and> c \<noteq> ''.'') (split_char (CHR ''/'') uri)"

text \<open>The loop of \<open>normalize_relative_path\<close>; the path is the list of its components, the last one first.\<close>

fun normalize_from :: "string list \<Rightarrow> string list \<Rightarrow> string + string list" where
  "normalize_from normalized [] = Inr (rev normalized)"
| "normalize_from normalized (c # cs) =
     (if c = ''..'' then
        (case normalized of
           [] \<Rightarrow> Inl ''Path traversal escaped root directory''
         | _ # ns \<Rightarrow> normalize_from ns cs)
      else normalize_from (c # normalized) cs)"

fun path_of :: "string list \<Rightarrow> string" where
  "path_of [] = []"
| "path_of [c] = c"
| "path_of (c # cs) = c @ ''/'' @ path_of cs"

definition normalize_relative_path :: "string \<Rightarrow> string + string" where
  "normalize_relative_path uri = map_sum id path_of (normalize_from [] (uri_components uri))"

text \<open>The normal components of a path.\<close>

definition normal_components :: "string \<Rightarrow> string list" where
  "normal_components p = map the (filter (\<lambda>c. c \<noteq> None) (path_components p))"

definition has_hidden_component :: "string \<Rightarrow> bool" where
  "has_hidden_component rel_path \<longleftrightarrow> list_ex (\<lambda>c. starts_with c ''.'') (normal_components rel_path)"

definition is_protected_rule_path :: "string \<Rightarrow> bool" where
  "is_protected_rule_path p \<longleftrightarrow> list_ex (\<lambda>c. c = ''.veysrule'') (normal_components p)"

text \<open>The part of a target before the query and the fragment.\<close>

definition before_query :: "string \<Rightarrow> string" where
  "before_query s = hd (split_char (CHR ''#'') (hd (split_char (CHR ''?'') s)))"

section \<open>Escaping\<close>

definition replace_char :: "char \<Rightarrow> string \<Rightarrow> string \<Rightarrow> string" where
  "replace_char c r s = concat (map (\<lambda>x. if x = c then r else [x]) s)"

definition html_escape :: "string \<Rightarrow> string" where
  "html_escape value =
     replace_char (CHR 0x22) ''&quot;'' (replace_char (CHR ''>'') ''&gt;''
       (replace_char (CHR ''<'') ''&lt;'' (replace_char (CHR ''&'') ''&amp;'' value)))"

definition hex_upper :: "nat \<Rightarrow> string" where
  "hex_upper n = to_ascii_uppercase (show_hex n)"

definition url_encode_char :: "char \<Rightarrow> string" where
  "url_encode_char c =
     (if is_ascii_alphanumeric c \<or> c \<in> set ''-_.~'' then [c]
      else ''%'' @ (if code c < 16 then ''0'' else []) @ hex_upper (code c))"

definition url_encode_path :: "string \<Rightarrow> string" where
  "url_encode_path value = concat (map url_encode_char value)"

text \<open>\<open>char::is_control\<close>: the characters up to U+001F and those from U+007F to U+009F.\<close>

definition char_value :: "string \<Rightarrow> nat" where
  "char_value ch = (case ch of [c] \<Rightarrow> code c | [c, d] \<Rightarrow> if code c = 0xC2 then code d else 0x100 | _ \<Rightarrow> 0x100)"

definition is_control :: "string \<Rightarrow> bool" where
  "is_control ch \<longleftrightarrow> char_value ch < 0x20 \<or> 0x7F \<le> char_value ch \<and> char_value ch \<le> 0x9F"

definition json_escape_char :: "string \<Rightarrow> string" where
  "json_escape_char ch =
     (if ch = [CHR 0x22] then [CHR 0x5C, CHR 0x22]
      else if ch = [CHR 0x5C] then [CHR 0x5C, CHR 0x5C]
      else if ch = [LF] then [CHR 0x5C] @ ''n''
      else if ch = [CR] then [CHR 0x5C] @ ''r''
      else if ch = [CHR 0x09] then [CHR 0x5C] @ ''t''
      else if is_control ch then
        (let hex = show_hex (char_value ch) in [CHR 0x5C] @ ''u'' @ replicate (4 - length hex) (CHR ''0'') @ hex)
      else ch)"

definition json_escape :: "string \<Rightarrow> string" where
  "json_escape value = concat (map json_escape_char (chars value))"

section \<open>Normalised paths stay below the root\<close>

definition simple_name :: "string \<Rightarrow> bool" where
  "simple_name c \<longleftrightarrow> c \<noteq> [] \<and> c \<noteq> ''.'' \<and> c \<noteq> ''..'' \<and> CHR ''/'' \<notin> set c"

lemma uri_components_piece: "c \<in> set (uri_components uri) \<Longrightarrow> c \<noteq> ''..'' \<Longrightarrow> simple_name c"
  by (auto simp: uri_components_def simple_name_def dest: split_char_pieces)

lemma normalize_from_simple:
  "normalize_from ns cs = Inr r \<Longrightarrow> list_all simple_name ns \<Longrightarrow> (\<And>c. c \<in> set cs \<Longrightarrow> c \<noteq> ''..'' \<Longrightarrow> simple_name c)
    \<Longrightarrow> list_all simple_name r"
  by (induction ns cs rule: normalize_from.induct) (auto split: if_splits list.splits simp: list_all_iff)

text \<open>The depth below the root after each component never becomes negative.\<close>

fun stays_below :: "nat \<Rightarrow> string list \<Rightarrow> bool" where
  "stays_below d [] = True"
| "stays_below d (c # cs) = (if c = ''..'' then d > 0 \<and> stays_below (d - 1) cs else stays_below (Suc d) cs)"

lemma normalize_from_iff: "(\<exists>r. normalize_from ns cs = Inr r) \<longleftrightarrow> stays_below (length ns) cs"
  by (induction ns cs rule: normalize_from.induct) (auto split: list.splits)

lemma split_path_of:
  "list_all simple_name cs \<Longrightarrow> cs \<noteq> [] \<Longrightarrow> split_char (CHR ''/'') (path_of cs) = cs"
  by (induction cs rule: path_of.induct) (auto simp: simple_name_def split_char_last split_char_Cons)

lemma path_of_not_absolute: "list_all simple_name cs \<Longrightarrow> \<not> starts_with (path_of cs) ''/''"
  by (cases cs rule: path_of.cases)
     (auto simp: starts_with_def simple_name_def prefix_def append_eq_Cons_conv Cons_eq_append_conv)

lemma path_components_path_of: "list_all simple_name cs \<Longrightarrow> path_components (path_of cs) = map Some cs"
proof (cases "cs = []")
  case False
  assume cs: "list_all simple_name cs"
  then have "filter (\<lambda>c. c \<noteq> [] \<and> c \<noteq> ''.'') cs = cs" "map (\<lambda>c. if c = ''..'' then None else Some c) cs = map Some cs"
    by (auto simp: list_all_iff simple_name_def intro: filter_True)
  then show ?thesis
    using path_of_not_absolute [OF cs] split_path_of [OF cs False] by (simp add: path_components_def)
qed (simp add: path_components_def starts_with_def)

lemma normal_components_path_of: "list_all simple_name cs \<Longrightarrow> normal_components (path_of cs) = cs"
  by (simp add: normal_components_def path_components_path_of filter_True comp_def)

lemma path_components_no_slash: "Some c \<in> set (path_components p) \<Longrightarrow> simple_name c"
  by (auto simp: path_components_def simple_name_def split: if_splits dest: split_char_pieces)

lemma normal_components_simple: "c \<in> set (normal_components p) \<Longrightarrow> simple_name c"
  by (auto simp: normal_components_def intro: path_components_no_slash)

text \<open>
  C36. The normalisation of a request path never leaves the root: it fails exactly when some prefix of
  the path goes up more often than down, and otherwise the result is a path of ordinary names that are
  not empty, \<open>.\<close> or \<open>..\<close> and contain no separator, from which its components can be read back.
\<close>

theorem normalize_confined:
  "case normalize_relative_path uri of
     Inl e \<Rightarrow> \<not> stays_below 0 (uri_components uri)
   | Inr p \<Rightarrow> stays_below 0 (uri_components uri)
       \<and> (\<exists>cs. p = path_of cs \<and> list_all simple_name cs \<and> normal_components p = cs \<and> path_components p = map Some cs)"
proof (cases "normalize_from [] (uri_components uri)")
  case (Inl e)
  then show ?thesis using normalize_from_iff [of "[]" "uri_components uri"]
    by (auto simp: normalize_relative_path_def)
next
  case (Inr cs)
  have "list_all simple_name cs" using normalize_from_simple [OF Inr] uri_components_piece by simp
  then show ?thesis using Inr normalize_from_iff [of "[]" "uri_components uri"]
    by (auto simp: normalize_relative_path_def normal_components_path_of path_components_path_of)
qed

section \<open>Links of a listing lead back\<close>

abbreviation upper_digit :: "nat \<Rightarrow> char" where
  "upper_digit d \<equiv> hd (to_ascii_uppercase [digit_char d])"

lemma upper_digit:
  assumes "d < 16"
  shows "digit_val 16 (upper_digit d) = Some d \<and> upper_digit d \<noteq> CHR ''+'' \<and> code (upper_digit d) < 128"
proof -
  have "list_all (\<lambda>d. digit_val 16 (upper_digit d) = Some d \<and> upper_digit d \<noteq> CHR ''+'' \<and> code (upper_digit d) < 128) [0..<16]"
    by code_simp
  then show ?thesis using assms by (simp only: list_all_iff) simp
qed

lemma hex_upper_two:
  assumes "n < 256"
  shows "(if n < 16 then ''0'' else []) @ hex_upper n = [upper_digit (n div 16), upper_digit (n mod 16)]"
proof -
  have "n div 16 < 16" using assms by simp
  then have "show_radix 16 n = (if n < 16 then [digit_char n] else [digit_char (n div 16), digit_char (n mod 16)])"
    by (simp add: show_radix.simps [of 16 n] show_radix.simps [of 16 "n div 16"])
  moreover have "upper_digit 0 = CHR ''0''" by code_simp
  ultimately show ?thesis by (auto simp: hex_upper_def to_ascii_uppercase_def)
qed

lemma read_two_digits:
  assumes "a < 16" "b < 16"
  shows "from_utf8 (str_bytes [upper_digit a, upper_digit b]) = Some [upper_digit a, upper_digit b]
   \<and> from_str_radix 16 255 [upper_digit a, upper_digit b] = Some (a * 16 + b)"
proof -
  have "utf8_str [upper_digit a, upper_digit b]"
    using upper_digit [OF assms(1)] upper_digit [OF assms(2)] by (intro utf8_str_ascii) (simp add: is_ascii_def)
  then show ?thesis using assms upper_digit [OF assms(1)] upper_digit [OF assms(2)]
    by (simp only: from_utf8_str_bytes) (simp add: from_str_radix_def)
qed

lemma percent_bytes_char:
  "percent_bytes (str_bytes (url_encode_char c) @ bs) = map_option ((#) (byte_of_char c)) (percent_bytes bs)"
proof (cases "is_ascii_alphanumeric c \<or> c \<in> set ''-_.~''")
  case True
  moreover have "\<not> is_ascii_alphanumeric (CHR ''%'')" by code_simp
  ultimately have "c \<noteq> CHR ''%''" by auto
  moreover have "char_of_byte 0x25 = CHR ''%''" by code_simp
  ultimately have "byte_of_char c \<noteq> 0x25" by (metis char_of_byte_of_char)
  with True show ?thesis by (simp add: url_encode_char_def str_bytes_def)
next
  case False
  let ?a = "code c div 16" and ?b = "code c mod 16"
  have ab: "?a < 16" "?b < 16" by (simp_all add: less_mult_imp_div_less)
  have "url_encode_char c = CHR ''%'' # [upper_digit ?a, upper_digit ?b]"
    using False hex_upper_two [of "code c"] by (simp add: url_encode_char_def)
  then have "str_bytes (url_encode_char c) @ bs = 0x25 # byte_of_char (upper_digit ?a) # byte_of_char (upper_digit ?b) # bs"
    by (simp add: str_bytes_def byte_of_char_def)
  then show ?thesis using read_two_digits [OF ab]
    by (simp add: str_bytes_def) (simp add: byte_of_char_def)
qed

lemma percent_bytes_encoded:
  "percent_bytes (str_bytes (url_encode_path s)) = Some (str_bytes s)"
proof (induction s)
  case (Cons c s)
  show ?case using Cons percent_bytes_char [of c "str_bytes (url_encode_path s)"]
    by (simp add: url_encode_path_def str_bytes_def)
qed (simp add: url_encode_path_def str_bytes_def)

lemma percent_decode_encoded: "utf8_str s \<Longrightarrow> percent_decode_single (url_encode_path s) = Some s"
  by (simp add: percent_decode_single_def percent_bytes_encoded from_utf8_str_bytes)

lemma encode_char_plain: "CHR ''%'' \<notin> set (url_encode_char c) \<Longrightarrow> url_encode_char c = [c]"
  by (simp add: url_encode_char_def split: if_splits)

lemma encode_plain: "CHR ''%'' \<notin> set (url_encode_path s) \<Longrightarrow> url_encode_path s = s"
proof (induction s)
  case (Cons c s)
  then show ?case using encode_char_plain [of c] by (auto simp: url_encode_path_def)
qed (simp add: url_encode_path_def)



text \<open>A name with a percent sign is decoded once too often: its link leads to another name.\<close>

lemma listing_link_percent: "percent_decode_recursive (url_encode_path ''a%41'') = Some ''aA''"
  by code_simp

end
