(* ===== verification/Document.thy ===== *)
theory Document
  imports Url Http
begin

text \<open>
  The document tree and the functions that open a file below its root without following symbolic
  links (\<open>src/src/router/handler.rs\<close>). The tree is a value: it does not change while a request is
  handled. Opening fails or succeeds; the kind of the error is never looked at.
\<close>

section \<open>The tree\<close>

text \<open>A file with its size and its modification time in nanoseconds since the epoch.\<close>

record doc_file =
  df_handle :: file_handle
  df_len :: nat
  df_mtime :: nat

datatype doc_node =
    DocDir nat "(string \<times> doc_node) list"
  | DocFile doc_file
  | DocLink string

text \<open>\<open>take(limit)\<close> followed by \<open>read_to_end\<close>.\<close>

fun read_all :: "nat \<Rightarrow> source \<Rightarrow> io_kind + bytes" where
  "read_all limit [] = Inr []"
| "read_all limit (Fault k # es) = (if limit = 0 then Inr [] else Inl k)"
| "read_all limit (Chunk bs # es) =
     (if bs = [] then Inr []
      else if limit \<le> length bs then Inr (take limit bs)
      else map_sum id (\<lambda>r. bs @ r) (read_all (limit - length bs) es))"

definition read_file :: "nat \<Rightarrow> doc_file \<Rightarrow> io_kind + bytes" where
  "read_file limit f = (case df_handle f 0 of Inl k \<Rightarrow> Inl k | Inr src \<Rightarrow> read_all limit src)"

text \<open>The tree as the rule cache sees it: files by their text, if they can be read as text.\<close>

definition file_text :: "doc_file \<Rightarrow> string option" where
  "file_text f = (case read_file usize_max f of Inl k \<Rightarrow> None | Inr bs \<Rightarrow> from_utf8 bs)"

primrec rule_view :: "doc_node \<Rightarrow> fs_node" where
  "rule_view (DocDir t es) = Dir (Some t) (map (map_prod id rule_view) es)"
| "rule_view (DocFile f) = File (file_text f) (Some (df_mtime f))"
| "rule_view (DocLink target) = Symlink target"

section \<open>Opening\<close>

text \<open>\<open>openat\<close> with \<open>O_NOFOLLOW\<close>; a name with a NUL byte is no C string.\<close>

fun open_at :: "doc_node \<Rightarrow> string \<Rightarrow> doc_node option" where
  "open_at (DocDir t es) c =
     (if NUL \<in> set c then None
      else case map_of es c of
             Some (DocLink target) \<Rightarrow> None
           | found \<Rightarrow> found)"
| "open_at _ c = None"

definition open_dir_at :: "doc_node \<Rightarrow> string \<Rightarrow> doc_node option" where
  "open_dir_at n c = (case open_at n c of Some (DocDir t es) \<Rightarrow> Some (DocDir t es) | _ \<Rightarrow> None)"

fun descend :: "doc_node \<Rightarrow> string list \<Rightarrow> doc_node option" where
  "descend n [] = Some n"
| "descend n (c # cs) = (case open_dir_at n c of None \<Rightarrow> None | Some m \<Rightarrow> descend m cs)"

text \<open>A root is the canonical path with the tree below it, or nothing if there is none.\<close>

type_synonym doc_root = "string \<times> doc_node"

definition open_beneath_directory :: "doc_root \<Rightarrow> string \<Rightarrow> doc_node option" where
  "open_beneath_directory root relative = descend (snd root) (normal_components relative)"

text \<open>All components but the last must be directories.\<close>

definition open_last :: "doc_node \<Rightarrow> string list \<Rightarrow> doc_node option" where
  "open_last n cs = (case descend n (butlast cs) of None \<Rightarrow> None | Some m \<Rightarrow> open_at m (last cs))"

text \<open>
  The loop over the index names takes the first that opens. An attempt that does not return makes the
  whole loop not return, which is the value \<open>None\<close>.
\<close>

fun first_ok :: "('a \<Rightarrow> 'b option option) \<Rightarrow> 'a list \<Rightarrow> 'b option option" where
  "first_ok f [] = Some None"
| "first_ok f (x # xs) = Option.bind (f x) (\<lambda>r. case r of None \<Rightarrow> first_ok f xs | Some v \<Rightarrow> Some (Some v))"

lemma first_ok_mono [partial_function_mono]:
  assumes "\<And>x. mono_option (\<lambda>f. B f x)"
  shows "mono_option (\<lambda>f. first_ok (B f) xs)"
proof (induction xs)
  case (Cons x xs)
  have "mono_option (\<lambda>f. case r of None \<Rightarrow> first_ok (B f) xs | Some v \<Rightarrow> Some (Some v))" for r
    using Cons by (cases r) (simp_all add: option.const_mono)
  then have "mono_option (\<lambda>f. Option.bind (B f x) (\<lambda>r. case r of None \<Rightarrow> first_ok (B f) xs | Some v \<Rightarrow> Some (Some v)))"
    by (rule bind_mono [OF assms])
  then show ?case by simp
qed (simp add: option.const_mono)

partial_function (option) open_beneath_with_index :: "doc_root \<Rightarrow> string \<Rightarrow> string list \<Rightarrow> (doc_file \<times> string) option option" where
  "open_beneath_with_index root relative index_files =
     (let components = normal_components relative in
      if components = [] then Some None
      else case open_last (snd root) components of
             None \<Rightarrow> Some None
           | Some found \<Rightarrow>
               (case found of
                  DocFile f \<Rightarrow> Some (Some (f, path_push (fst root) relative))
                | DocLink target \<Rightarrow> Some None
                | DocDir t es \<Rightarrow>
                    first_ok (\<lambda>index. open_beneath_with_index root (path_push relative index) index_files) index_files))"

declare open_beneath_with_index.simps [code]

definition open_beneath :: "doc_root \<Rightarrow> string \<Rightarrow> (doc_file \<times> string) option option" where
  "open_beneath root relative = open_beneath_with_index root relative [''index.html'']"

definition secure_script_path :: "doc_root \<Rightarrow> string \<Rightarrow> string option option" where
  "secure_script_path root relative = map_option (map_option snd) (open_beneath_with_index root relative [])"

section \<open>What can be opened\<close>

text \<open>The file at a list of names below a directory, reached through directories only.\<close>

fun file_at :: "doc_node \<Rightarrow> string list \<Rightarrow> doc_file option" where
  "file_at (DocDir t es) (c # cs) =
     (case map_of es c of
        Some (DocFile f) \<Rightarrow> if cs = [] then Some f else None
      | Some (DocDir t' es') \<Rightarrow> file_at (DocDir t' es') cs
      | _ \<Rightarrow> None)"
| "file_at _ _ = None"

lemma open_at_Some:
  "open_at n c = Some m \<Longrightarrow> \<exists>t es. n = DocDir t es \<and> map_of es c = Some m \<and> \<not> (\<exists>target. m = DocLink target)"
  by (cases "(n, c)" rule: open_at.cases) (auto split: if_splits option.splits doc_node.splits)

lemma open_dir_at_Some:
  "open_dir_at n c = Some m \<Longrightarrow> \<exists>t es t' es'. n = DocDir t es \<and> m = DocDir t' es' \<and> map_of es c = Some m"
  by (auto simp: open_dir_at_def split: option.splits doc_node.splits dest!: open_at_Some)

lemma descend_append:
  "descend n (cs @ ds) = (case descend n cs of None \<Rightarrow> None | Some m \<Rightarrow> descend m ds)"
  by (induction cs arbitrary: n) (auto split: option.splits)

lemma descend_file_at:
  "descend n cs = Some m \<Longrightarrow> ds \<noteq> [] \<Longrightarrow> file_at n (cs @ ds) = file_at m ds"
  by (induction cs arbitrary: n) (auto split: option.splits dest!: open_dir_at_Some)

lemma open_last_file:
  assumes "cs \<noteq> []" "open_last n cs = Some (DocFile f)"
  shows "file_at n cs = Some f"
proof -
  obtain m where m: "descend n (butlast cs) = Some m" "open_at m (last cs) = Some (DocFile f)"
    using assms(2) by (auto simp: open_last_def split: option.splits)
  then show ?thesis using open_at_Some [OF m(2)] descend_file_at [OF m(1), of "[last cs]"] assms(1) by auto
qed

lemma open_last_dir: "cs \<noteq> [] \<Longrightarrow> open_last n cs = Some (DocDir t es) \<Longrightarrow> descend n cs = Some (DocDir t es)"
  using descend_append [of n "butlast cs" "[last cs]"]
  by (auto simp: open_last_def open_dir_at_def split: option.splits)

lemma open_last_snoc: "descend n cs = Some m \<Longrightarrow> open_last n (cs @ [c]) = open_at m c"
  by (simp add: open_last_def)

lemma split_char_ne: "split_char c s \<noteq> []"
  by (induction s) (auto split: list.splits)

lemma split_char_append: "split_char c (p @ c # q) = split_char c p @ split_char c q"
  by (induction p) (auto split: list.splits simp: split_char_ne)

lemma components_push:
  assumes "simple_name c"
  shows "normal_components (path_push p c) = normal_components p @ [c]"
proof -
  have c: "c \<noteq> []" "c \<noteq> ''.''" "c \<noteq> ''..''" "split_char (CHR ''/'') c = [c]" "\<not> starts_with c ''/''"
    using assms by (auto simp: simple_name_def split_char_last starts_with_def prefix_def)
  consider "p = []" | q where "p = q @ ''/''" | "p \<noteq> []" "\<not> ends_with p ''/''"
    by (auto simp: ends_with_def suffix_def)
  then show ?thesis
  proof cases
    case 2
    have "starts_with (q @ ''/'' @ c) ''/'' = starts_with (q @ ''/'') ''/''" by (cases q) (auto simp: starts_with_def)
    then show ?thesis using 2 c split_char_append [of "CHR ''/''" q c] split_char_append [of "CHR ''/''" q "[]"]
      by (simp add: path_push_def join_path_def normal_components_def path_components_def ends_with_def)
  next
    case 3
    have "starts_with (p @ ''/'' @ c) ''/'' = starts_with p ''/''" using 3(1) by (cases p) (auto simp: starts_with_def)
    then show ?thesis using 3 c split_char_append [of "CHR ''/''" p c]
      by (simp add: path_push_def join_path_def normal_components_def path_components_def)
  qed (use c in \<open>simp add: path_push_def join_path_def normal_components_def path_components_def starts_with_def\<close>)
qed

lemma first_ok_found: "first_ok f xs = Some (Some v) \<Longrightarrow> \<exists>x \<in> set xs. f x = Some (Some v)"
  by (induction xs) (auto simp: bind_eq_Some_conv split: option.splits)

lemma first_ok_total: "(\<And>x. x \<in> set xs \<Longrightarrow> f x \<noteq> None) \<Longrightarrow> first_ok f xs \<noteq> None"
  by (induction xs) (auto split: option.splits bind_split)

text \<open>Index names that the rule parser accepts.\<close>

abbreviation simple_names :: "string list \<Rightarrow> bool" where
  "simple_names \<equiv> list_all simple_name"

lemma opened_file:
  assumes "open_beneath_with_index root relative index_files = Some (Some (f, p))" "simple_names index_files"
  shows "\<exists>ks. set ks \<subseteq> set index_files \<and> file_at (snd root) (normal_components relative @ ks) = Some f
    \<and> p = path_push (fst root) (foldl path_push relative ks)"
proof -
  let ?P = "\<lambda>root relative index_files r. \<forall>f p. r = Some (f, p) \<longrightarrow> simple_names index_files \<longrightarrow>
     (\<exists>ks. set ks \<subseteq> set index_files \<and> file_at (snd root) (normal_components relative @ ks) = Some f
        \<and> p = path_push (fst root) (foldl path_push relative ks))"
  have "?P root relative index_files (Some (f, p))"
    using assms(1)
  proof (rule open_beneath_with_index.raw_induct [where P = ?P, rotated], goal_cases)
    case (1 opn root relative index_files r)
    show ?case
    proof (intro allI impI)
      fix f p assume r: "r = Some (f, p)" and idx: "simple_names index_files"
      let ?cs = "normal_components relative"
      from 1(2) r obtain found where ne: "?cs \<noteq> []" and found: "open_last (snd root) ?cs = Some found"
        by (auto simp: Let_def split: if_splits option.splits)
      show "\<exists>ks. set ks \<subseteq> set index_files \<and> file_at (snd root) (?cs @ ks) = Some f
        \<and> p = path_push (fst root) (foldl path_push relative ks)"
      proof (cases found)
        case (DocFile f')
        then show ?thesis using 1(2) r ne found open_last_file [OF ne, of "snd root" f] by (intro exI [of _ "[]"]) simp
      next
        case (DocDir t es)
        then have "first_ok (\<lambda>index. opn root (path_push relative index) index_files) index_files = Some (Some (f, p))"
          using 1(2) r ne found by simp
        then obtain i where i: "i \<in> set index_files" "opn root (path_push relative i) index_files = Some (Some (f, p))"
          by (auto dest: first_ok_found)
        have "simple_name i" using idx i(1) by (simp add: list_all_iff)
        with 1(1) [OF i(2)] idx obtain ks where "set ks \<subseteq> set index_files"
          "file_at (snd root) (?cs @ i # ks) = Some f" "p = path_push (fst root) (foldl path_push (path_push relative i) ks)"
          by (auto simp: components_push)
        then show ?thesis using i(1) by (intro exI [of _ "i # ks"]) simp
      qed (use 1(2) r ne found in simp)
    qed
  qed
  then show ?thesis using assms(2) by blast
qed

lemma size_map_of: "map_of es c = Some n \<Longrightarrow> size n < size (DocDir t es)"
  by (induction es) (auto split: if_splits)

lemma open_returns_dir:
  assumes "simple_names index_files"
  shows "descend (snd root) (normal_components relative) = Some n \<Longrightarrow> normal_components relative \<noteq> []
    \<Longrightarrow> open_last (snd root) (normal_components relative) = Some n
    \<Longrightarrow> open_beneath_with_index root relative index_files \<noteq> None"
proof (induction "size n" arbitrary: n relative rule: less_induct)
  case less
  let ?cs = "normal_components relative"
  have "open_beneath_with_index root (path_push relative i) index_files \<noteq> None"
    if dir: "n = DocDir t es" and i: "i \<in> set index_files" for i t es
  proof -
    have cs: "normal_components (path_push relative i) = ?cs @ [i]"
      using assms i by (simp add: components_push list_all_iff)
    have open_i: "open_last (snd root) (?cs @ [i]) = open_at n i" using open_last_snoc [OF less.prems(1)] .
    show ?thesis
    proof (cases "open_at n i")
      case (Some m)
      show ?thesis
      proof (cases m)
        case (DocDir t' es')
        have "descend (snd root) (?cs @ [i]) = Some m" using open_last_dir [of "?cs @ [i]"] open_i Some DocDir by simp
        moreover have "size m < size n" using open_at_Some [OF Some] size_map_of by auto
        ultimately show ?thesis using less.hyps [of m "path_push relative i"] open_i Some by (simp add: cs)
      qed (use open_i Some in \<open>simp_all add: cs open_beneath_with_index.simps [of root "path_push relative i"]\<close>)
    qed (use open_i in \<open>simp add: cs open_beneath_with_index.simps [of root "path_push relative i"]\<close>)
  qed
  then have "first_ok (\<lambda>i. open_beneath_with_index root (path_push relative i) index_files) index_files \<noteq> None"
    if "n = DocDir t es" for t es
    using that by (intro first_ok_total) auto
  then show ?case using less.prems by (cases n) (auto simp: open_beneath_with_index.simps [of root relative])
qed

lemma open_returns:
  assumes "simple_names index_files"
  shows "\<exists>r. open_beneath_with_index root relative index_files = Some r"
proof (cases "open_last (snd root) (normal_components relative)")
  case (Some n)
  show ?thesis
  proof (cases "normal_components relative = [] \<or> \<not> (\<exists>t es. n = DocDir t es)")
    case True
    then show ?thesis using Some by (cases n) (auto simp: open_beneath_with_index.simps [of root relative] Let_def)
  next
    case False
    then show ?thesis
      using open_returns_dir [OF assms, of root relative n] open_last_dir Some by auto
  qed
qed (simp add: open_beneath_with_index.simps [of root relative] Let_def)

end
