(* ===== verification/Http_Date.thy ===== *)
theory Http_Date
  imports Prelude "HOL-Library.Code_Target_Nat"
begin

text \<open>
  HTTP dates (\<open>format_http_date\<close> and \<open>parse_http_date\<close> in \<open>src/src/router/handler.rs\<close>): the
  calendar of a Unix time and back. A time is its seconds since the epoch, zero for an earlier
  one. The \<open>u64\<close> arithmetic of the parser wraps on hostile input; it is a residue modulo \<open>2 ^ 64\<close>.
\<close>

section \<open>Formatting\<close>

definition wdays :: "string list" where
  "wdays = [''Sun'', ''Mon'', ''Tue'', ''Wed'', ''Thu'', ''Fri'', ''Sat'']"

definition months :: "string list" where
  "months = [''Jan'', ''Feb'', ''Mar'', ''Apr'', ''May'', ''Jun'', ''Jul'', ''Aug'', ''Sep'', ''Oct'', ''Nov'', ''Dec'']"

text \<open>\<open>format!("{:0w$}")\<close>: at least \<open>w\<close> characters, filled with zeros.\<close>

definition pad_zero :: "nat \<Rightarrow> string \<Rightarrow> string" where
  "pad_zero w s = replicate (w - length s) (CHR ''0'') @ s"

definition div_ceil :: "nat \<Rightarrow> nat \<Rightarrow> nat" where
  "div_ceil a b = (a + b - 1) div b"

text \<open>The year, month and day of a number of days since the epoch.\<close>

definition civil :: "nat \<Rightarrow> nat \<times> nat \<times> nat" where
  "civil days =
     (let l = days + 68569 + 2440588;
          n = (4 * l) div 146097;
          l = l - div_ceil (146097 * n) 4;
          i = (4000 * (l + 1)) div 1461001;
          l = l - (1461 * i) div 4 + 31;
          j = (80 * l) div 2447;
          day = l - (2447 * j) div 80;
          l = j div 11;
          month = j + 2 - 12 * l;
          year = 100 * (n - 49) + i + l
      in (year, month, day))"

definition format_http_date :: "nat \<Rightarrow> string" where
  "format_http_date secs =
     (let days_since_epoch = secs div 86400;
          secs_of_day = secs mod 86400;
          (year, month, day) = civil days_since_epoch
      in wdays ! ((days_since_epoch + 4) mod 7) @ '', '' @ pad_zero 2 (show_nat day) @ '' ''
         @ months ! (month - 1) @ '' '' @ pad_zero 4 (show_nat year) @ '' ''
         @ pad_zero 2 (show_nat (secs_of_day div 3600)) @ '':''
         @ pad_zero 2 (show_nat (secs_of_day mod 3600 div 60)) @ '':''
         @ pad_zero 2 (show_nat (secs_of_day mod 60)) @ '' GMT'')"

section \<open>Parsing\<close>

fun position :: "('a \<Rightarrow> bool) \<Rightarrow> 'a list \<Rightarrow> nat option" where
  "position p [] = None"
| "position p (x # xs) = (if p x then Some 0 else map_option Suc (position p xs))"

text \<open>\<open>trim_matches(',')\<close>.\<close>

definition trim_matches :: "char \<Rightarrow> string \<Rightarrow> string" where
  "trim_matches c s = rev (dropWhile ((=) c) (rev (dropWhile ((=) c) s)))"

definition wrap64 :: "int \<Rightarrow> nat" where
  "wrap64 x = nat (x mod 2 ^ 64)"

definition julian_day :: "nat \<Rightarrow> nat \<Rightarrow> nat \<Rightarrow> nat" where
  "julian_day year month day =
     (let a = (14 - month) div 12;
          y = wrap64 (int year + 4800 - int a);
          m = month + 12 * a - 3
      in wrap64 (int day + int ((153 * m + 2) div 5) + 365 * int y + int (y div 4) - int (y div 100)
           + int (y div 400) - 32045))"

text \<open>The fields of the date: day, month, year and time.\<close>

definition date_fields :: "string list \<Rightarrow> (string \<times> string \<times> string \<times> string) option" where
  "date_fields parts =
     (if length parts < 5 then None
      else if length parts = 6 then Some (parts ! 1, parts ! 2, parts ! 3, parts ! 4)
      else Some (parts ! 0, parts ! 1, parts ! 2, parts ! 3))"

definition parse_time :: "string \<Rightarrow> (nat \<times> nat \<times> nat) option" where
  "parse_time s =
     (case split_char (CHR '':'') s of
        [h, m, sec] \<Rightarrow>
          (case (parse_u64 h, parse_u64 m, parse_u64 sec) of
             (Some h, Some m, Some sec) \<Rightarrow> Some (h, m, sec)
           | _ \<Rightarrow> None)
      | _ \<Rightarrow> None)"

definition parse_http_date :: "string \<Rightarrow> nat option" where
  "parse_http_date s =
     (case date_fields (split_whitespace s) of
        None \<Rightarrow> None
      | Some (day_str, month_str, year_str, time_str) \<Rightarrow>
          (case (parse_u64 (trim_matches (CHR '','') day_str), parse_u64 year_str,
                 position (\<lambda>m. eq_ignore_ascii_case m month_str) months, parse_time time_str) of
             (Some day, Some year, Some k, Some (hour, mins, sec)) \<Rightarrow>
               (let jdn = julian_day year (k + 1) day in
                if jdn < 2440588 then None
                else Some (wrap64 (int (jdn - 2440588) * 86400 + int hour * 3600 + int mins * 60 + int sec)))
           | _ \<Rightarrow> None))"

section \<open>The calendar\<close>

text \<open>The century, the year in the century and the day in the year that \<open>civil\<close> finds.\<close>

lemma century:
  fixes l :: nat
  assumes "n = 4 * l div 146097"
  shows "div_ceil (146097 * n) 4 \<le> l" "l - div_ceil (146097 * n) 4 \<le> 36524"
  using assms by (auto simp: div_ceil_def)

lemma year_of_century:
  fixes l :: nat
  assumes "l \<le> 36524" "i = 4000 * (l + 1) div 1461001"
  shows "i < 100" "1461 * i div 4 \<le> l" "l - 1461 * i div 4 \<le> 365"
proof -
  have i: "1461001 * i \<le> 4000 * (l + 1)" "4000 * (l + 1) < 1461001 * (i + 1)"
    using div_times_less_eq_dividend [of "4000 * (l + 1)" 1461001] dividend_less_div_times [of 1461001 "4000 * (l + 1)"]
    by (simp_all add: assms(2) algebra_simps)
  have q: "4 * (1461 * i div 4) \<le> 1461 * i" "1461 * i \<le> 4 * (1461 * i div 4) + 3" by simp_all
  show "i < 100" using i assms(1) by simp
  then show "l - 1461 * i div 4 \<le> 365" using i(2) q(2) by (simp add: algebra_simps)
  show "1461 * i div 4 \<le> l"
  proof (cases "i = 0")
    case False
    with i(1) q(1) show ?thesis by (simp add: algebra_simps)
  qed simp
qed

lemma month_of_year:
  fixes l :: nat
  assumes "31 \<le> l" "l \<le> 396" "j = 80 * l div 2447"
  shows "1 \<le> j" "j \<le> 12" "2447 * j div 80 \<le> l" "1 \<le> l - 2447 * j div 80" "l - 2447 * j div 80 \<le> 31"
    "(153 * (j - 1) + 2) div 5 + 30 = 2447 * j div 80"
proof -
  have "2447 * j \<le> 80 * l" "80 * l < 2447 * (j + 1)"
    using div_times_less_eq_dividend [of "80 * l" 2447] dividend_less_div_times [of 2447 "80 * l"]
    by (simp_all add: assms(3) algebra_simps)
  note b = this
  have j: "1 \<le> j" "j \<le> 12" using b assms(1,2) by simp_all
  then show "1 \<le> j" "j \<le> 12" by simp_all
  have q: "80 * (2447 * j div 80) \<le> 2447 * j" "2447 * j \<le> 80 * (2447 * j div 80) + 79" by simp_all
  show "l - 2447 * j div 80 \<le> 31" using b(2) q(2) by (simp add: algebra_simps)
  have cases: "j = 1 \<or> j = 2 \<or> j = 3 \<or> j = 4 \<or> j = 5 \<or> j = 6 \<or> j = 7 \<or> j = 8 \<or> j = 9 \<or> j = 10 \<or> j = 11 \<or> j = 12"
    using j by presburger
  then show "(153 * (j - 1) + 2) div 5 + 30 = 2447 * j div 80" by auto
  show "2447 * j div 80 \<le> l" "1 \<le> l - 2447 * j div 80" using cases b(1) by auto
qed

lemma wrap64_id: "0 \<le> x \<Longrightarrow> x < 2 ^ 64 \<Longrightarrow> wrap64 x = nat x"
  by (simp add: wrap64_def)

text \<open>The Julian day of a calendar date in the form that \<open>civil\<close> builds it.\<close>

lemma julian_day_civil:
  fixes k i j day :: nat
  assumes "i < 100" "1 \<le> j" "j \<le> 12" "day \<le> 31" "48 \<le> k" "k < 2 ^ 40"
  shows "julian_day (100 * (k - 48) + i + j div 11) (j + 2 - 12 * (j div 11)) day + 32045 =
    day + (153 * (j - 1) + 2) div 5 + 365 * (100 * k + i) + 24 * k + i div 4 + k div 4"
proof -
  define y where "y = 100 * k + i"
  have late: "j div 11 = (if j \<le> 10 then 0 else 1)" using assms(2,3) by auto
  let ?month = "j + 2 - 12 * (j div 11)"
  have a: "(14 - ?month) div 12 = j div 11" "?month + 12 * (j div 11) - 3 = j - 1"
    using assms(2,3) by (auto simp: late)
  have "int (100 * (k - 48) + i + j div 11) + 4800 - int (j div 11) = int y"
    using assms(5) by (simp add: y_def of_nat_diff algebra_simps)
  then have y: "wrap64 (int (100 * (k - 48) + i + j div 11) + 4800 - int (j div 11)) = y"
    using assms(1,6) by (simp add: wrap64_id y_def)
  have divs: "y div 4 = 25 * k + i div 4" "y div 100 = k" "y div 400 = k div 4"
    using assms(1) by (auto simp: y_def)
  have j153: "(153 * (j - 1) + 2) div 5 \<le> 337" using assms(3) by simp
  define z where "z = int day + int ((153 * (j - 1) + 2) div 5) + 365 * int y + int (y div 4) - int (y div 100) + int (y div 400) - 32045"
  have z: "z = int (day + (153 * (j - 1) + 2) div 5 + 365 * (100 * k + i) + 24 * k + i div 4 + k div 4) - 32045"
    unfolding z_def divs by (simp add: y_def algebra_simps)
  have "i div 4 \<le> i" "k div 4 \<le> k" by simp_all
  then have "0 \<le> z" "z < 2 ^ 64" using j153 assms unfolding z by simp_all
  then have "int (wrap64 z) = z" by (simp add: wrap64_id)
  moreover have "julian_day (100 * (k - 48) + i + j div 11) (j + 2 - 12 * (j div 11)) day = wrap64 z"
    unfolding julian_day_def a Let_def y z_def ..
  ultimately show ?thesis unfolding z by linarith
qed

text \<open>The calendar date of a day is the date whose Julian day it is.\<close>

lemma civil_julian_day:
  assumes "days < 2 ^ 40"
  shows "case civil days of (year, month, day) \<Rightarrow>
    julian_day year month day = days + 2440588 \<and> 1 \<le> month \<and> month \<le> 12 \<and> 1 \<le> day \<and> day \<le> 31 \<and> year < 2 ^ 48"
proof -
  define l0 where "l0 = days + 68569 + 2440588"
  define n where "n = 4 * l0 div 146097"
  define l1 where "l1 = l0 - div_ceil (146097 * n) 4"
  define i where "i = 4000 * (l1 + 1) div 1461001"
  define l2 where "l2 = l1 - 1461 * i div 4 + 31"
  define j where "j = 80 * l2 div 2447"
  define k where "k = n - 1"
  define day where "day = l2 - 2447 * j div 80"
  note cent = century [OF n_def]
  have l1: "l1 \<le> 36524" using cent(2) by (simp add: l1_def)
  note yr = year_of_century [OF l1 i_def]
  have l2: "31 \<le> l2" "l2 \<le> 396" using yr(3) by (simp_all add: l2_def)
  note mon = month_of_year [OF l2 j_def]
  have "4 * 2509157 div 146097 \<le> n" unfolding n_def l0_def by (intro div_le_mono) simp
  moreover have "146097 * n \<le> 4 * l0" unfolding n_def by simp
  ultimately have k: "48 \<le> k" "n = k + 1" "k < 2 ^ 40" using assms by (simp_all add: k_def l0_def)
  have "civil days = (100 * (n - 49) + i + j div 11, j + 2 - 12 * (j div 11), day)"
    unfolding civil_def Let_def day_def j_def l2_def i_def l1_def n_def l0_def ..
  then have civil: "civil days = (100 * (k - 48) + i + j div 11, j + 2 - 12 * (j div 11), day)"
    by (simp add: k(2))
  have day: "1 \<le> day" "day \<le> 31" using mon(4,5) by (simp_all add: day_def)
  have j: "1 \<le> j + 2 - 12 * (j div 11)" "j + 2 - 12 * (j div 11) \<le> 12" using mon(1,2) by auto
  have "div_ceil (146097 * n) 4 = 36524 * k + k div 4 + 36525" by (simp add: div_ceil_def k(2))
  then have "l0 = l1 + (36524 * k + k div 4 + 36525)" using cent(1) by (simp add: l1_def)
  moreover have "l1 + 31 = l2 + (365 * i + i div 4)" using yr(2) by (simp add: l2_def)
  moreover have "l2 = day + ((153 * (j - 1) + 2) div 5 + 30)" using mon(3,6) by (simp add: day_def)
  moreover note julian_day_civil [OF yr(1) mon(1,2) day(2) k(1,3)]
  ultimately have "julian_day (100 * (k - 48) + i + j div 11) (j + 2 - 12 * (j div 11)) day = days + 2440588"
    by (simp add: l0_def)
  moreover have "100 * (k - 48) + i + j div 11 < 2 ^ 48" using k(3) yr(1) mon(2) by simp
  ultimately show ?thesis using j day by (simp only: civil prod.case)
qed

section \<open>The text\<close>

text \<open>Words of visible ASCII characters.\<close>

definition visible :: "string \<Rightarrow> bool" where
  "visible w \<longleftrightarrow> w \<noteq> [] \<and> list_all (\<lambda>c. 33 \<le> code c \<and> code c \<le> 126) w"

lemma ws_len_visible: "33 \<le> code c \<Longrightarrow> code c \<le> 126 \<Longrightarrow> ws_len (c # s) = 0"
  by (cases "c # s" rule: ws_len.cases) (auto simp: ws1_def ws2_def ws3_def)

lemma ws_len_space: "ws_len (CHR '' '' # s) = 1"
  by (cases "CHR '' '' # s" rule: ws_len.cases) (auto simp: ws1_def)

lemma words_from_visible:
  "list_all (\<lambda>c. 33 \<le> code c \<and> code c \<le> 126) w \<Longrightarrow> words_from cur (w @ s) = words_from (rev w @ cur) s"
  by (induction w arbitrary: cur) (auto simp: words_from.simps [of _ "_ # _"] ws_len_visible)

lemma split_whitespace_Cons:
  "visible w \<Longrightarrow> split_whitespace (w @ CHR '' '' # s) = w # split_whitespace s"
  by (auto simp: split_whitespace_def visible_def words_from_visible words_from.simps [of _ "CHR '' '' # s"] ws_len_space)

lemma split_whitespace_last: "visible w \<Longrightarrow> split_whitespace w = [w]"
  using words_from_visible [of w "[]" "[]"]
  by (auto simp: split_whitespace_def visible_def words_from.simps [of _ "[]"])

text \<open>Numbers filled with zeros.\<close>

definition digits :: "string \<Rightarrow> bool" where
  "digits w \<longleftrightarrow> w \<noteq> [] \<and> list_all (\<lambda>c. 48 \<le> code c \<and> code c \<le> 57) w"

lemma digits_pad: "digits (pad_zero k (show_nat n))"
proof -
  have "48 \<le> code c \<and> code c \<le> 57" if "c \<in> set (show_nat n)" for c
    using show_radix_digits [of 10 c n] that by (auto simp: digit_char_def)
  then show ?thesis by (auto simp: digits_def pad_zero_def list_all_iff)
qed

lemma digits_visible: "digits w \<Longrightarrow> visible w"
  by (auto simp: digits_def visible_def list_all_iff)

lemma digits_no: "digits w \<Longrightarrow> code c < 48 \<or> 57 < code c \<Longrightarrow> c \<notin> set w"
  by (auto simp: digits_def list_all_iff)

lemma digits_val_zeros: "digits_val 10 0 (replicate k (CHR ''0'') @ s) = digits_val 10 0 s"
  by (induction k) (auto simp: digit_val_def)

lemma parse_pad:
  assumes "n < 2 ^ 64"
  shows "parse_u64 (pad_zero k (show_nat n)) = Some n"
proof -
  have "hd (pad_zero k (show_nat n)) \<noteq> CHR ''+''"
    using digits_pad [of k n] digits_no [OF digits_pad [of k n], of "CHR ''+''"]
    by (auto simp: digits_def dest: hd_in_set)
  moreover have "digits_val 10 0 (pad_zero k (show_nat n)) = Some n"
    by (simp add: pad_zero_def digits_val_zeros digits_val_show)
  ultimately show ?thesis
    using assms digits_pad [of k n]
    by (cases "pad_zero k (show_nat n)") (auto simp: from_str_radix_def digits_def)
qed

lemma trim_matches_none: "c \<notin> set s \<Longrightarrow> trim_matches c s = s"
proof -
  have "dropWhile ((=) c) xs = xs" if "c \<notin> set xs" for xs using that by (cases xs) auto
  moreover assume "c \<notin> set s"
  ultimately show ?thesis by (simp add: trim_matches_def)
qed

lemma month_position:
  "1 \<le> month \<Longrightarrow> month \<le> 12 \<Longrightarrow>
   visible (months ! (month - 1)) \<and> position (\<lambda>m. eq_ignore_ascii_case m (months ! (month - 1))) months = Some (month - 1)"
proof -
  have "\<forall>k \<in> set [0..<12]. visible (months ! k) \<and> position (\<lambda>m. eq_ignore_ascii_case m (months ! k)) months = Some k"
    by code_simp
  then show "1 \<le> month \<Longrightarrow> month \<le> 12 \<Longrightarrow> ?thesis" by auto
qed

lemma wday_visible: "visible (wdays ! (n mod 7) @ '','')"
proof -
  have "\<forall>k \<in> set [0..<7]. visible (wdays ! k @ '','')" by code_simp
  then show ?thesis by auto
qed

lemma parse_time_show:
  assumes "h < 2 ^ 64" "m < 2 ^ 64" "s < 2 ^ 64"
  shows "parse_time (pad_zero 2 (show_nat h) @ '':'' @ pad_zero 2 (show_nat m) @ '':'' @ pad_zero 2 (show_nat s)) = Some (h, m, s)"
proof -
  let ?h = "pad_zero 2 (show_nat h)" and ?m = "pad_zero 2 (show_nat m)" and ?s = "pad_zero 2 (show_nat s)"
  have "split_char (CHR '':'') (?h @ CHR '':'' # ?m @ CHR '':'' # ?s) = [?h, ?m, ?s]"
    using digits_no [OF digits_pad, of "CHR '':''"] by (simp add: split_char_Cons split_char_last)
  then show ?thesis
    unfolding parse_time_def by (simp only: parse_pad [OF assms(1)] parse_pad [OF assms(2)] parse_pad [OF assms(3)]
        append_Cons append_Nil list.case option.case prod.case)
qed

lemma visible_append: "visible v \<Longrightarrow> visible w \<Longrightarrow> visible (v @ w)"
  by (simp add: visible_def)

text \<open>
  C30. HTTP dates are read back exactly: for every time, whatever the leap years between, parsing
  the date that is sent as \<open>Last-Modified\<close> gives that time, so a client that returns it is told
  that nothing changed.
\<close>

theorem parse_format_http_date:
  assumes "secs < 2 ^ 56"
  shows "parse_http_date (format_http_date secs) = Some secs"
proof -
  let ?days = "secs div 86400" and ?sod = "secs mod 86400"
  obtain year month day where c: "civil ?days = (year, month, day)" by (cases "civil ?days") auto
  have "?days < 2 ^ 40" using assms by simp
  from civil_julian_day [OF this] c have cal: "julian_day year month day = ?days + 2440588" "1 \<le> month" "month \<le> 12"
    "day \<le> 31" "year < 2 ^ 48" by simp_all
  let ?w = "wdays ! ((?days + 4) mod 7) @ '',''" and ?d = "pad_zero 2 (show_nat day)"
    and ?m = "months ! (month - 1)" and ?y = "pad_zero 4 (show_nat year)"
    and ?h = "pad_zero 2 (show_nat (?sod div 3600))" and ?i = "pad_zero 2 (show_nat (?sod mod 3600 div 60))"
    and ?s = "pad_zero 2 (show_nat (?sod mod 60))"
  let ?t = "?h @ '':'' @ ?i @ '':'' @ ?s"
  have fmt: "format_http_date secs = ?w @ CHR '' '' # ?d @ CHR '' '' # ?m @ CHR '' '' # ?y @ CHR '' '' # ?t @ CHR '' '' # ''GMT''"
    by (simp add: format_http_date_def Let_def c)
  have vis: "visible ?w" "visible ?d" "visible ?m" "visible ?y" "visible ?t" "visible ''GMT''"
    using wday_visible month_position [OF cal(2,3)] digits_visible [OF digits_pad]
    by (simp_all add: visible_append visible_def)
  have "split_whitespace (format_http_date secs) = [?w, ?d, ?m, ?y, ?t, ''GMT'']"
    unfolding fmt using vis by (simp add: split_whitespace_Cons split_whitespace_last del: append_Cons append_assoc)
  then have fields: "date_fields (split_whitespace (format_http_date secs)) = Some (?d, ?m, ?y, ?t)"
    by (simp add: date_fields_def)
  have nums: "?sod div 3600 < 2 ^ 64" "?sod mod 3600 div 60 < 2 ^ 64" "?sod mod 60 < 2 ^ 64" "day < 2 ^ 64" "year < 2 ^ 64"
    using cal(4,5) by (simp_all add: less_imp_le order_le_less_trans [OF div_le_dividend] order_less_trans [OF mod_less_divisor])
  have "?sod mod 3600 div 60 * 60 + ?sod mod 60 = ?sod mod 3600"
    using div_mult_mod_eq [of "?sod mod 3600" 60] by (simp add: mod_mod_cancel)
  then have "?days * 86400 + ?sod div 3600 * 3600 + ?sod mod 3600 div 60 * 60 + ?sod mod 60 = secs"
    using div_mult_mod_eq [of "?sod" 3600] div_mult_mod_eq [of secs 86400] by linarith
  then have "int (?days * 86400 + ?sod div 3600 * 3600 + ?sod mod 3600 div 60 * 60 + ?sod mod 60) = int secs" by (rule arg_cong)
  then have "int ?days * 86400 + int (?sod div 3600) * 3600 + int (?sod mod 3600 div 60) * 60 + int (?sod mod 60) = int secs"
    unfolding of_nat_add of_nat_mult of_nat_numeral .
  then have total: "wrap64 (int ?days * 86400 + int (?sod div 3600) * 3600 + int (?sod mod 3600 div 60) * 60 + int (?sod mod 60)) = secs"
    using assms by (simp add: wrap64_id)
  have p1: "parse_u64 (trim_matches (CHR '','') ?d) = Some day"
    unfolding trim_matches_none [OF digits_no [OF digits_pad, of "CHR '',''", simplified]] by (rule parse_pad [OF nums(4)])
  have p2: "position (\<lambda>m. eq_ignore_ascii_case m ?m) months = Some (month - 1)"
    using month_position [OF cal(2,3)] by simp
  have jd: "julian_day year (month - 1 + 1) day = ?days + 2440588" using cal(1,2) by simp
  show ?thesis
    unfolding parse_http_date_def fields option.case prod.case p1 p2 parse_pad [OF nums(5)] parse_time_show [OF nums(1-3)] jd Let_def
    by (simp add: total)
qed

theorem parse_format_http_date_witness:
  "format_http_date 784111777 = ''Sun, 06 Nov 1994 08:49:37 GMT'' \<and> parse_http_date ''Sun, 06 Nov 1994 08:49:37 GMT'' = Some 784111777"
proof -
  have f: "format_http_date 784111777 = ''Sun, 06 Nov 1994 08:49:37 GMT''" by code_simp
  have "parse_http_date (format_http_date 784111777) = Some 784111777" by (rule parse_format_http_date) simp
  with f show ?thesis by simp
qed

end
