(* ===== verification/Static.thy ===== *)
theory Static
  imports Document Http_Date Negotiation "HOL-Library.List_Lexorder"
begin

text \<open>
  The parts of a static response (\<open>src/src/router/handler.rs\<close>): media types, entity tags, byte ranges,
  conditional requests, header edits, content coding, virtual hosts and directory listings.
\<close>

section \<open>Representation metadata\<close>

text \<open>\<open>Path::file_name\<close> and \<open>Path::extension\<close>.\<close>

definition file_name :: "string \<Rightarrow> string option" where
  "file_name p = (case rev (path_components p) of Some c # _ \<Rightarrow> Some c | _ \<Rightarrow> None)"

definition path_extension :: "string \<Rightarrow> string option" where
  "path_extension p =
     (case file_name p of
        None \<Rightarrow> None
      | Some name \<Rightarrow>
          (case rsplit_once (CHR ''.'') name of
             None \<Rightarrow> None
           | Some (stem, ext) \<Rightarrow> if stem = [] then None else Some ext))"

text \<open>No character outside ASCII has one of the letters of these extensions as its lower case.\<close>

definition get_mime_type :: "string \<Rightarrow> string" where
  "get_mime_type p =
     (case map_option to_ascii_lowercase (path_extension p) of
        None \<Rightarrow> ''application/octet-stream''
      | Some e \<Rightarrow>
          if e = ''html'' \<or> e = ''htm'' then ''text/html; charset=utf-8''
          else if e = ''css'' then ''text/css; charset=utf-8''
          else if e = ''js'' then ''application/javascript''
          else if e = ''json'' then ''application/json''
          else if e = ''txt'' then ''text/plain; charset=utf-8''
          else if e = ''xml'' then ''application/xml''
          else if e = ''svg'' then ''image/svg+xml''
          else if e = ''png'' then ''image/png''
          else if e = ''jpg'' \<or> e = ''jpeg'' then ''image/jpeg''
          else if e = ''gif'' then ''image/gif''
          else if e = ''webp'' then ''image/webp''
          else if e = ''ico'' then ''image/x-icon''
          else if e = ''wasm'' then ''application/wasm''
          else ''application/octet-stream'')"

definition rule_mime_type :: "directory_config \<Rightarrow> string \<Rightarrow> string" where
  "rule_mime_type dc actual_path =
     (case find (\<lambda>(extension, _). map_option (\<lambda>e. ''.'' @ e) (path_extension actual_path) = Some extension) (dc_mime_types dc) of
        Some (_, mime) \<Rightarrow> mime
      | None \<Rightarrow> get_mime_type actual_path)"

definition generate_etag :: "nat \<Rightarrow> nat \<Rightarrow> string" where
  "generate_etag mtime_secs file_size = [CHR 0x22] @ show_hex mtime_secs @ ''-'' @ show_hex file_size @ [CHR 0x22]"

section \<open>Ranges\<close>

record range_spec =
  rg_start :: nat
  rg_end :: nat

definition parse_range_header :: "string \<Rightarrow> nat \<Rightarrow> unit + range_spec option" where
  "parse_range_header header file_size =
     (if \<not> starts_with header ''bytes='' then Inr None
      else if file_size = 0 then Inl ()
      else
        (let spec = trim (drop (length ''bytes='') header) in
         if contains_any spec [CHR '',''] then Inr None
         else case split_char (CHR ''-'') spec of
           [p0, p1] \<Rightarrow>
             (let start_str = trim p0; end_str = trim p1 in
              if start_str = [] \<and> end_str = [] then Inr None
              else if start_str = [] then
                (case parse_u64 end_str of
                   None \<Rightarrow> Inl ()
                 | Some suffix_len \<Rightarrow>
                     if suffix_len = 0 then Inl ()
                     else Inr (Some \<lparr>rg_start = file_size - suffix_len, rg_end = file_size - 1\<rparr>))
              else if end_str = [] then
                (case parse_u64 start_str of
                   None \<Rightarrow> Inl ()
                 | Some s \<Rightarrow> if s \<ge> file_size then Inl () else Inr (Some \<lparr>rg_start = s, rg_end = file_size - 1\<rparr>))
              else
                (case (parse_u64 start_str, parse_u64 end_str) of
                   (Some s, Some e) \<Rightarrow>
                     if s \<ge> file_size \<or> s > e then Inl ()
                     else Inr (Some \<lparr>rg_start = s, rg_end = min e (file_size - 1)\<rparr>)
                 | _ \<Rightarrow> Inl ()))
         | _ \<Rightarrow> Inr None))"

section \<open>Header edits\<close>

definition apply_custom_headers :: "http_response \<Rightarrow> headers \<Rightarrow> http_response" where
  "apply_custom_headers resp hs = foldl (\<lambda>r h. with_header r (fst h) (snd h)) resp hs"

definition apply_rule_headers :: "http_response \<Rightarrow> directory_config \<Rightarrow> http_response" where
  "apply_rule_headers resp dc =
     foldl (\<lambda>r name. r\<lparr>rs_headers := remove_header (rs_headers r) name\<rparr>)
       (foldl (\<lambda>r h. with_header r (fst h) (snd h)) resp (dc_add_headers dc)) (dc_remove_headers dc)"

definition security_defaults :: "server_config \<Rightarrow> (string \<times> string option) list" where
  "security_defaults cfg =
     [(''X-Content-Type-Options'', sc_security_x_content_type_options cfg),
      (''Referrer-Policy'', sc_security_referrer_policy cfg),
      (''X-Frame-Options'', sc_security_x_frame_options cfg),
      (''Content-Security-Policy'', sc_security_content_security_policy cfg)]"

definition add_default_header :: "http_response \<Rightarrow> string \<times> string option \<Rightarrow> http_response" where
  "add_default_header r d =
     (case snd d of
        None \<Rightarrow> r
      | Some v \<Rightarrow>
          if list_ex (\<lambda>h. eq_ignore_ascii_case (fst h) (fst d)) (rs_headers r) then r
          else r\<lparr>rs_headers := rs_headers r @ [(fst d, v)]\<rparr>)"

definition apply_security_headers :: "http_response \<Rightarrow> server_config \<Rightarrow> http_response" where
  "apply_security_headers r cfg = foldl add_default_header r (security_defaults cfg)"

text \<open>\<open>iter_mut().find\<close> followed by an update of the value found.\<close>

fun update_first :: "string \<Rightarrow> (string \<Rightarrow> string) \<Rightarrow> headers \<Rightarrow> headers" where
  "update_first name f [] = []"
| "update_first name f (h # hs) =
     (if eq_ignore_ascii_case (fst h) name then (fst h, f (snd h)) # hs else h # update_first name f hs)"

definition ensure_vary_accept_encoding :: "headers \<Rightarrow> headers" where
  "ensure_vary_accept_encoding hs =
     (if find_header hs ''Vary'' \<noteq> None
      then update_first ''Vary'' (\<lambda>v.
             if list_ex (\<lambda>p. eq_ignore_ascii_case (trim p) ''Accept-Encoding'') (split_char (CHR '','') v) then v
             else v @ '', Accept-Encoding'') hs
      else hs @ [(''Vary'', ''Accept-Encoding'')])"

definition vary_etag_for_encoding :: "headers \<Rightarrow> string \<Rightarrow> headers" where
  "vary_etag_for_encoding hs encoding =
     update_first ''ETag'' (\<lambda>v.
       if ends_with v [CHR 0x22] then butlast v @ ''-'' @ encoding @ [CHR 0x22] else v @ ''-'' @ encoding) hs"

section \<open>Content coding\<close>

text \<open>The last \<open>q=\<close> parameter decides; only the sign of the quality matters.\<close>

definition last_quality :: "string list \<Rightarrow> bool" where
  "last_quality params =
     foldl (\<lambda>q p. case strip_prefix ''q='' (trim p) of
                    None \<Rightarrow> q
                  | Some raw \<Rightarrow> (case f32_positive raw of Some b \<Rightarrow> b | None \<Rightarrow> False)) True params"

fun accepts_items :: "bool option \<Rightarrow> string list \<Rightarrow> bool" where
  "accepts_items wildcard [] = (wildcard = Some True)"
| "accepts_items wildcard (item # items) =
     (let parts = split_char (CHR '';'') (trim item);
          coding = to_ascii_lowercase (trim (hd parts));
          q = last_quality (tl parts)
      in if coding = ''gzip'' then q
         else accepts_items (if coding = ''*'' then Some q else wildcard) items)"

definition handler_accepts_gzip :: "string option \<Rightarrow> bool" where
  "handler_accepts_gzip v =
     (case v of None \<Rightarrow> False | Some s \<Rightarrow> accepts_items None (split_char (CHR '','') s))"

definition response_mime_is_compressible :: "http_response \<Rightarrow> string list \<Rightarrow> bool" where
  "response_mime_is_compressible r allowlist =
     (case find_header (rs_headers r) ''Content-Type'' of
        None \<Rightarrow> False
      | Some v \<Rightarrow>
          (let mime = to_ascii_lowercase (trim (hd (split_char (CHR '';'') v))) in
           starts_with mime ''text/''
           \<or> mime \<in> {''application/json'', ''application/javascript'', ''application/xml'', ''image/svg+xml''}
           \<or> list_ex (\<lambda>p. starts_with mime (to_ascii_lowercase p)) allowlist))"

section \<open>Virtual hosts\<close>

definition normalize_host :: "string \<Rightarrow> string option" where
  "normalize_host value =
     (let value = to_ascii_lowercase (trim value) in
      if value = [] \<or> list_ex (\<lambda>c. code c \<le> 0x20 \<or> code c = 0x7F) value then None
      else case strip_prefix ''['' value of
        Some address \<Rightarrow>
          (case split_once (CHR '']'') address of
             None \<Rightarrow> None
           | Some (address, rest) \<Rightarrow>
               if rest \<noteq> [] \<and> (\<not> starts_with rest '':'' \<or> parse_u16 (tl rest) = None) then None
               else Some address)
      | None \<Rightarrow>
          (case rsplit_once (CHR '':'') value of
             Some (name, port) \<Rightarrow>
               if contains_any name [CHR '':''] \<or> parse_u16 port = None then None else Some name
           | None \<Rightarrow> Some value))"

definition select_vhost :: "server_config \<Rightarrow> http_request \<Rightarrow> vhost_config option" where
  "select_vhost cfg req =
     (case Option.bind (get_header req ''Host'') normalize_host of
        None \<Rightarrow> None
      | Some host \<Rightarrow>
          (case find (\<lambda>v. vh_host v = host) (sc_vhosts cfg) of
             Some v \<Rightarrow> Some v
           | None \<Rightarrow> find (\<lambda>v. vh_host v = ''*'' \<or> vh_host v = ''_'') (sc_vhosts cfg)))"

definition effective_config :: "server_config \<Rightarrow> http_request \<Rightarrow> server_config" where
  "effective_config cfg req =
     (case select_vhost cfg req of
        None \<Rightarrow> cfg
      | Some v \<Rightarrow>
          cfg\<lparr>sc_root_dir := vh_root_dir v, sc_config_file := path_push (vh_root_dir v) ''.veysrule'',
              sc_tls_certificate := vh_tls_certificate v, sc_tls_private_key := vh_tls_private_key v\<rparr>)"

section \<open>Directory listings\<close>

fun dir_entries :: "doc_node \<Rightarrow> (string \<times> doc_node) list" where
  "dir_entries (DocDir t es) = es"
| "dir_entries _ = []"

fun is_dir_node :: "doc_node \<Rightarrow> bool" where
  "is_dir_node (DocDir t es) = True"
| "is_dir_node _ = False"

definition MAX_LISTING :: nat where "MAX_LISTING = 1024 * 1024"

text \<open>\<open>sort_by\<close> on the names, which is stable; names are compared as byte strings.\<close>

definition listing_entries :: "doc_node \<Rightarrow> bool \<Rightarrow> (string \<times> bool) list" where
  "listing_entries directory deny_hidden =
     sort_key (\<lambda>e. map (\<lambda>c. code c) (fst e))
       (map (\<lambda>(name, n). (name, is_dir_node n))
         (filter (\<lambda>(name, n). \<not> (name = ''.veysrule'' \<or> deny_hidden \<and> starts_with name ''.''))
           (take 4096 (dir_entries directory))))"

definition listing_line :: "string \<times> bool \<Rightarrow> string" where
  "listing_line e =
     (let rest = (if snd e then ''/'' else []) in
      ''<li><a href='' @ [CHR 0x22] @ url_encode_path (fst e) @ rest @ [CHR 0x22] @ ''>''
      @ html_escape (fst e) @ rest @ ''</a></li>'')"

fun push_lines :: "string \<Rightarrow> string list \<Rightarrow> string" where
  "push_lines html [] = html"
| "push_lines html (l # ls) =
     (if length html + length l > MAX_LISTING then html else push_lines (html @ l) ls)"

definition listing_head :: string where
  "listing_head = ''<!doctype html><meta charset='' @ [CHR 0x22] @ ''utf-8'' @ [CHR 0x22] @ ''><title>Index</title><ul>''"

definition render_directory_listing :: "doc_node \<Rightarrow> bool \<Rightarrow> bytes" where
  "render_directory_listing directory deny_hidden =
     str_bytes (push_lines listing_head (map listing_line (listing_entries directory deny_hidden)) @ ''</ul>'')"

section \<open>Ranges are exact\<close>

lemma ws_len_rev_visible: "33 \<le> code c \<Longrightarrow> code c \<le> 126 \<Longrightarrow> ws_len_rev (c # s) = 0"
  by (cases "c # s" rule: ws_len_rev.cases) (auto simp: ws1_def ws2_def ws3_def)

lemma trim_visible: "list_all (\<lambda>c. 33 \<le> code c \<and> code c \<le> 126) s \<Longrightarrow> trim s = s"
proof (cases "s = []")
  case False
  assume v: "list_all (\<lambda>c. 33 \<le> code c \<and> code c \<le> 126) s"
  have "ws_len s = 0" using v False by (cases s) (auto simp: ws_len_visible)
  moreover have "ws_len_rev (rev s) = 0"
    using v False by (cases s rule: rev_cases) (auto simp: ws_len_rev_visible)
  ultimately show ?thesis by (simp add: trim_def trim_start_def trim_end_def trim_with.simps)
qed simp

lemma show_nat_digits: "c \<in> set (show_nat n) \<Longrightarrow> 48 \<le> code c \<and> code c \<le> 57"
  using show_radix_digits [of 10 c n] by (auto simp: digit_char_def)

lemma show_nat_parts:
  "trim (show_nat n) = show_nat n" "CHR ''-'' \<notin> set (show_nat n)" "CHR '','' \<notin> set (show_nat n)" "show_nat n \<noteq> []"
  using show_nat_digits [of _ n]
  by (auto intro!: trim_visible simp: list_all_iff show_radix_ne) (force dest: show_nat_digits)+

definition range_text :: "string \<Rightarrow> string \<Rightarrow> string" where
  "range_text a b = ''bytes='' @ a @ ''-'' @ b"

definition range_spec_text :: "string \<Rightarrow> bool" where
  "range_spec_text a \<longleftrightarrow> a = [] \<or> (\<exists>n. a = show_nat n)"

lemma parse_range_text:
  assumes "range_spec_text a" "range_spec_text b" "0 < n"
  shows "parse_range_header (range_text a b) n =
     (if a = [] \<and> b = [] then Inr None
      else if a = [] then
        (case parse_u64 b of None \<Rightarrow> Inl () | Some k \<Rightarrow>
           if k = 0 then Inl () else Inr (Some \<lparr>rg_start = n - k, rg_end = n - 1\<rparr>))
      else if b = [] then
        (case parse_u64 a of None \<Rightarrow> Inl () | Some s \<Rightarrow>
           if s \<ge> n then Inl () else Inr (Some \<lparr>rg_start = s, rg_end = n - 1\<rparr>))
      else (case (parse_u64 a, parse_u64 b) of
              (Some s, Some e) \<Rightarrow>
                if s \<ge> n \<or> s > e then Inl () else Inr (Some \<lparr>rg_start = s, rg_end = min e (n - 1)\<rparr>)
            | _ \<Rightarrow> Inl ()))"
proof -
  have ab: "trim a = a" "trim b = b" "CHR ''-'' \<notin> set a" "CHR ''-'' \<notin> set b" "CHR '','' \<notin> set a" "CHR '','' \<notin> set b"
    using assms(1,2) show_nat_parts by (auto simp: range_spec_text_def)
  have v: "list_all (\<lambda>c. 33 \<le> code c \<and> code c \<le> 126) (a @ ''-'' @ b)"
    using assms(1,2) by (auto simp: range_spec_text_def list_all_iff) (fastforce dest: show_nat_digits)+
  have "split_char (CHR ''-'') (a @ ''-'' @ b) = [a, b]" using ab by (simp add: split_char_Cons split_char_last)
  moreover have "drop (length ''bytes='') (range_text a b) = a @ ''-'' @ b" by (simp add: range_text_def)
  moreover have "starts_with (range_text a b) ''bytes=''" by (simp add: range_text_def starts_with_def)
  ultimately show ?thesis using assms(3) ab trim_visible [OF v]
    unfolding parse_range_header_def by (simp only:) (simp add: contains_any_def list_ex_iff)
qed

lemma range_within:
  "parse_range_header h n = Inr (Some r) \<Longrightarrow> rg_start r \<le> rg_end r \<and> rg_end r < n"
  by (auto simp: parse_range_header_def Let_def split: if_splits list.splits option.splits)

lemma parse_show_u64: "parse_u64 (show_nat n) = (if n < 2 ^ 64 then Some n else None)"
proof (cases "n < 2 ^ 64")
  case True
  then show ?thesis by (simp add: from_str_radix_show)
next
  case False
  obtain c cs where s: "show_nat n = c # cs" using show_nat_parts(4) [of n] by (cases "show_nat n") auto
  have "c \<noteq> CHR ''+''" using show_nat_digits [of c n] s by auto
  then have "parse_u64 (show_nat n) = (if n \<le> 2 ^ 64 - 1 then Some n else None)"
    using digits_val_show [of 10 n] by (simp add: from_str_radix_def s)
  then show ?thesis using False by simp
qed

text \<open>
  C38. A byte range that is served always lies within the file. For a nonempty file and numbers written
  in decimal, \<open>bytes=a-b\<close> with \<open>a\<close> in the file and not after \<open>b\<close> gives \<open>a\<close> to \<open>b\<close> cut at the end of
  the file, \<open>bytes=a-\<close> gives the rest from \<open>a\<close>, \<open>bytes=-k\<close> gives the last \<open>k\<close> bytes, and what cannot be
  satisfied is refused.
\<close>

theorem range_header_exact:
  assumes "0 < n" "a < 2 ^ 64" "b < 2 ^ 64"
  shows "(\<forall>h r. parse_range_header h n = Inr (Some r) \<longrightarrow> rg_start r \<le> rg_end r \<and> rg_end r < n)
   \<and> parse_range_header (range_text (show_nat a) (show_nat b)) n
       = (if a < n \<and> a \<le> b then Inr (Some \<lparr>rg_start = a, rg_end = min b (n - 1)\<rparr>) else Inl ())
   \<and> parse_range_header (range_text (show_nat a) []) n
       = (if a < n then Inr (Some \<lparr>rg_start = a, rg_end = n - 1\<rparr>) else Inl ())
   \<and> parse_range_header (range_text [] (show_nat b)) n
       = (if b > 0 then Inr (Some \<lparr>rg_start = n - b, rg_end = n - 1\<rparr>) else Inl ())"
proof -
  have t: "range_spec_text (show_nat k)" "range_spec_text []" for k by (auto simp: range_spec_text_def)
  have p: "parse_u64 (show_nat a) = Some a" "parse_u64 (show_nat b) = Some b"
    by (simp_all only: parse_show_u64 assms(2,3) if_True)
  note simps = parse_range_text [OF t(1) t(1) assms(1)] parse_range_text [OF t(1) t(2) assms(1)]
    parse_range_text [OF t(2) t(1) assms(1)] p option.case prod.case
  show ?thesis
    using range_within by (simp only: simps) (auto simp: show_nat_parts(4))
qed

text \<open>The witness: the range \<open>bytes=2-9\<close> of a file of five bytes.\<close>

theorem range_header_exact_witness:
  "parse_range_header ''bytes=2-9'' 5 = Inr (Some \<lparr>rg_start = 2, rg_end = 4\<rparr>)"
proof -
  have "range_text (show_nat 2) (show_nat 9) = ''bytes=2-9''" by code_simp
  then show ?thesis using range_header_exact [of 5 2 9] by simp
qed

end
