(* ===== verification/Admission.thy ===== *)
theory Admission
  imports Ip_Addr Complex_Main
begin

text \<open>
  Admission control (\<open>src/src/server/limits.rs\<close>): a token bucket and a connection counter per
  client address, with eviction of idle entries. The buckets are behind one mutex, so every
  operation is one step on the map. An \<open>Instant\<close> is a number of nanoseconds and
  \<open>duration_since\<close> is zero for a later instant. The \<open>f64\<close> token count is read as an exact
  rational: rounding is not modelled.
\<close>

section \<open>The limiter\<close>

definition MAX_ENTRIES :: nat where "MAX_ENTRIES = 4096"

abbreviation nanos :: nat where "nanos \<equiv> 1000000000"

record bucket =
  bk_tokens :: rat
  bk_updated :: nat
  bk_connections :: nat
  bk_last_seen :: nat

type_synonym limiter = "(ip_addr \<times> bucket) list"

definition keep_bucket :: "nat \<Rightarrow> bucket \<Rightarrow> bool" where
  "keep_bucket now b \<longleftrightarrow>
     0 < bk_connections b \<and> now - bk_last_seen b < 300 * nanos \<or> now - bk_last_seen b < 60 * nanos"

definition evict_old :: "limiter \<Rightarrow> nat \<Rightarrow> limiter" where
  "evict_old bs now = filter (\<lambda>e. keep_bucket now (snd e)) bs"

definition secs_f64 :: "nat \<Rightarrow> rat" where
  "secs_f64 d = of_nat d / of_nat nanos"

text \<open>\<open>entry(ip).or_insert_with(..)\<close>, after eviction; \<open>None\<close> when the table is full.\<close>

definition bucket_for :: "limiter \<Rightarrow> ip_addr \<Rightarrow> rat \<Rightarrow> nat \<Rightarrow> bucket option" where
  "bucket_for bs ip tokens now =
     (if MAX_ENTRIES \<le> length bs \<and> \<not> has_key bs ip then None
      else Some (case map_of bs ip of
                   Some b \<Rightarrow> b
                 | None \<Rightarrow> \<lparr>bk_tokens = tokens, bk_updated = now, bk_connections = 0, bk_last_seen = now\<rparr>))"

definition refill :: "bucket \<Rightarrow> nat \<Rightarrow> nat \<Rightarrow> nat \<Rightarrow> rat" where
  "refill b now rate burst =
     min (bk_tokens b + secs_f64 (now - bk_updated b) * of_nat rate) (of_nat burst)"

definition allow_request :: "limiter \<Rightarrow> nat \<Rightarrow> ip_addr \<Rightarrow> nat \<Rightarrow> nat \<Rightarrow> limiter \<times> bool" where
  "allow_request bs now ip rate burst =
     (if rate = 0 \<or> burst = 0 then (bs, True)
      else let bs = evict_old bs now in
        case bucket_for bs ip (of_nat burst) now of
          None \<Rightarrow> (bs, False)
        | Some b \<Rightarrow>
            (let t = refill b now rate burst;
                 b' = b\<lparr>bk_tokens := if t < 1 then t else t - 1, bk_updated := now, bk_last_seen := now\<rparr>
             in (AList.update ip b' bs, \<not> t < 1)))"

definition try_connection :: "limiter \<Rightarrow> nat \<Rightarrow> ip_addr \<Rightarrow> nat \<Rightarrow> limiter \<times> bool" where
  "try_connection bs now ip mx =
     (if mx = 0 then (bs, True)
      else let bs = evict_old bs now in
        case bucket_for bs ip 0 now of
          None \<Rightarrow> (bs, False)
        | Some b \<Rightarrow>
            if mx \<le> bk_connections b then (AList.update ip b bs, False)
            else (AList.update ip (b\<lparr>bk_connections := bk_connections b + 1, bk_last_seen := now\<rparr>) bs, True))"

definition release_connection :: "limiter \<Rightarrow> nat \<Rightarrow> ip_addr \<Rightarrow> limiter" where
  "release_connection bs now ip =
     (case map_of bs ip of
        None \<Rightarrow> bs
      | Some b \<Rightarrow> AList.update ip (b\<lparr>bk_connections := bk_connections b - 1, bk_last_seen := now\<rparr>) bs)"

section \<open>Sequences of operations\<close>

datatype limit_event = Request ip_addr | Connect ip_addr | Release ip_addr

record limits =
  lm_rate :: nat
  lm_burst :: nat
  lm_max :: nat

fun limit_step :: "limits \<Rightarrow> limiter \<Rightarrow> nat \<times> limit_event \<Rightarrow> limiter \<times> bool" where
  "limit_step l bs (now, Request ip) = allow_request bs now ip (lm_rate l) (lm_burst l)"
| "limit_step l bs (now, Connect ip) = try_connection bs now ip (lm_max l)"
| "limit_step l bs (now, Release ip) = (release_connection bs now ip, True)"

fun run_limits :: "limits \<Rightarrow> limiter \<Rightarrow> (nat \<times> limit_event) list \<Rightarrow> limiter" where
  "run_limits l bs [] = bs"
| "run_limits l bs (e # es) = run_limits l (fst (limit_step l bs e)) es"

text \<open>How many requests of an address are admitted.\<close>

fun admitted :: "limits \<Rightarrow> ip_addr \<Rightarrow> limiter \<Rightarrow> (nat \<times> limit_event) list \<Rightarrow> nat" where
  "admitted l ip bs [] = 0"
| "admitted l ip bs (e # es) =
     (if snd e = Request ip \<and> snd (limit_step l bs e) then 1 else 0) + admitted l ip (fst (limit_step l bs e)) es"

section \<open>The table stays bounded\<close>

definition bucket_ok :: "nat \<Rightarrow> bucket \<Rightarrow> bool" where
  "bucket_ok now b \<longleftrightarrow> 0 \<le> bk_tokens b \<and> bk_updated b \<le> bk_last_seen b \<and> bk_last_seen b \<le> now"

definition limiter_ok :: "nat \<Rightarrow> limiter \<Rightarrow> bool" where
  "limiter_ok now bs \<longleftrightarrow> distinct (map fst bs) \<and> length bs \<le> MAX_ENTRIES \<and> (\<forall>e \<in> set bs. bucket_ok now (snd e))"

lemma limiter_okD: "limiter_ok now bs \<Longrightarrow> map_of bs ip = Some b \<Longrightarrow> bucket_ok now b"
  by (fastforce simp: limiter_ok_def dest: map_of_SomeD)

lemma limiter_ok_mono: "limiter_ok now bs \<Longrightarrow> now \<le> now' \<Longrightarrow> limiter_ok now' bs"
  by (fastforce simp: limiter_ok_def bucket_ok_def)

lemma evict_ok: "limiter_ok now bs \<Longrightarrow> limiter_ok now (evict_old bs now)"
  by (auto simp: limiter_ok_def evict_old_def distinct_map_filter intro: order_trans [OF length_filter_le])

lemma bucket_for_ok:
  "limiter_ok now bs \<Longrightarrow> 0 \<le> t \<Longrightarrow> bucket_for bs ip t now = Some b \<Longrightarrow>
   bucket_ok now b \<and> (has_key bs ip \<or> length bs < MAX_ENTRIES)"
  by (auto simp: bucket_for_def limiter_ok_def bucket_ok_def has_key_iff split: if_splits option.splits
      dest!: map_of_SomeD)

lemma update_ok:
  assumes "limiter_ok now bs" "bucket_ok now b" "has_key bs ip \<or> length bs < MAX_ENTRIES"
  shows "limiter_ok now (AList.update ip b bs)"
proof -
  have "length (AList.update ip b bs) \<le> MAX_ENTRIES"
    using assms by (cases "has_key bs ip") (auto simp: limiter_ok_def has_key_iff length_al_update_old length_al_update_new)
  with assms show ?thesis
    by (auto simp: limiter_ok_def distinct_update dest: set_al_update)
qed

lemma refill_nonneg: "bucket_ok now b \<Longrightarrow> 0 \<le> refill b now rate burst"
  by (simp add: refill_def bucket_ok_def secs_f64_def)

lemma limit_step_ok:
  assumes "limiter_ok now bs"
  shows "limiter_ok now (fst (limit_step l bs (now, e)))"
proof (cases e)
  case (Request ip)
  have "limiter_ok now (AList.update ip (b\<lparr>bk_tokens := if t < 1 then t else t - 1, bk_updated := now, bk_last_seen := now\<rparr>) (evict_old bs now))"
    if "bucket_for (evict_old bs now) ip (of_nat (lm_burst l)) now = Some b" "t = refill b now (lm_rate l) (lm_burst l)" for b t
    using that bucket_for_ok [OF evict_ok [OF assms] _ that(1)] refill_nonneg [of now b "lm_rate l" "lm_burst l"]
    by (intro update_ok [OF evict_ok [OF assms]]) (auto simp: bucket_ok_def)
  with Request assms evict_ok [OF assms] show ?thesis
    by (simp add: allow_request_def Let_def split: option.splits)
next
  case (Connect ip)
  have "limiter_ok now (AList.update ip b (evict_old bs now))"
    "limiter_ok now (AList.update ip (b\<lparr>bk_connections := bk_connections b + 1, bk_last_seen := now\<rparr>) (evict_old bs now))"
    if "bucket_for (evict_old bs now) ip 0 now = Some b" for b
    using that bucket_for_ok [OF evict_ok [OF assms] _ that]
    by (auto intro!: update_ok [OF evict_ok [OF assms]]) (auto simp: bucket_ok_def)
  with Connect assms evict_ok [OF assms] show ?thesis
    by (simp add: try_connection_def Let_def split: option.splits)
next
  case (Release ip)
  have "limiter_ok now (AList.update ip (b\<lparr>bk_connections := bk_connections b - 1, bk_last_seen := now\<rparr>) bs)"
    if "map_of bs ip = Some b" for b
    using limiter_okD [OF assms that] that
    by (intro update_ok [OF assms]) (auto simp: bucket_ok_def has_key_def)
  with Release assms show ?thesis by (simp add: release_connection_def split: option.splits)
qed

section \<open>The rate is bounded\<close>

text \<open>What an address could spend now: an address without an entry has the full burst.\<close>

definition level :: "limits \<Rightarrow> nat \<Rightarrow> limiter \<Rightarrow> ip_addr \<Rightarrow> rat" where
  "level l now bs ip =
     (case map_of bs ip of None \<Rightarrow> of_nat (lm_burst l) | Some b \<Rightarrow> refill b now (lm_rate l) (lm_burst l))"

lemma map_of_filter_snd:
  "distinct (map fst al) \<Longrightarrow>
   map_of (filter (\<lambda>e. P (snd e)) al) k = (case map_of al k of Some v \<Rightarrow> if P v then Some v else None | None \<Rightarrow> None)"
  by (induction al) (auto split: option.splits if_splits simp: map_of_eq_None_iff rev_image_eqI)

text \<open>Forgetting an idle entry changes nothing when the burst refills within a minute.\<close>

lemma level_evict:
  assumes ok: "limiter_ok now bs" and burst: "lm_burst l \<le> 60 * lm_rate l"
  shows "level l now (evict_old bs now) ip = level l now bs ip"
proof -
  have "refill b now (lm_rate l) (lm_burst l) = of_nat (lm_burst l)"
    if b: "map_of bs ip = Some b" and gone: "\<not> keep_bucket now b" for b
  proof -
    have "60 * nanos \<le> now - bk_updated b" "0 \<le> bk_tokens b"
      using gone limiter_okD [OF ok b] by (auto simp: keep_bucket_def bucket_ok_def)
    then have "of_nat (60 * nanos) \<le> (of_nat (now - bk_updated b) :: rat)" by (simp only: of_nat_le_iff)
    then have "60 * of_nat (lm_rate l) \<le> secs_f64 (now - bk_updated b) * of_nat (lm_rate l)"
      by (intro mult_right_mono) (auto simp: secs_f64_def field_simps)
    moreover have "of_nat (lm_burst l) \<le> (60 * of_nat (lm_rate l) :: rat)"
      using burst by (metis of_nat_le_iff of_nat_mult of_nat_numeral)
    ultimately show ?thesis using \<open>0 \<le> bk_tokens b\<close> by (simp add: refill_def)
  qed
  with ok show ?thesis
    by (auto simp: level_def evict_old_def map_of_filter_snd limiter_ok_def split: option.splits)
qed

lemma level_later:
  assumes "limiter_ok now bs" "now \<le> now'"
  shows "level l now' bs ip \<le> level l now bs ip + secs_f64 (now' - now) * of_nat (lm_rate l)"
proof (cases "map_of bs ip")
  case None
  then show ?thesis by (simp add: level_def secs_f64_def)
next
  case (Some b)
  have "bk_updated b \<le> now" using limiter_okD [OF assms(1) Some] by (simp add: bucket_ok_def)
  then have "secs_f64 (now' - bk_updated b) = secs_f64 (now - bk_updated b) + secs_f64 (now' - now)"
    using assms(2) by (simp add: secs_f64_def of_nat_diff add_divide_distrib [symmetric])
  then have "secs_f64 (now' - bk_updated b) * of_nat (lm_rate l) =
      secs_f64 (now - bk_updated b) * of_nat (lm_rate l) + secs_f64 (now' - now) * of_nat (lm_rate l)"
    by (simp add: algebra_simps)
  moreover have "0 \<le> secs_f64 (now' - now) * of_nat (lm_rate l)" by (simp add: secs_f64_def)
  ultimately show ?thesis using Some by (simp add: level_def refill_def min_def)
qed

lemma level_other: "ip \<noteq> ip' \<Longrightarrow> level l now (AList.update ip' b bs) ip = level l now bs ip"
  by (simp add: level_def update_conv')

lemma level_update: "level l now (AList.update ip b bs) ip = refill b now (lm_rate l) (lm_burst l)"
  by (simp add: level_def update_conv')

lemma bucket_for_level:
  "bucket_for bs ip (of_nat (lm_burst l)) now = Some b \<Longrightarrow> refill b now (lm_rate l) (lm_burst l) = level l now bs ip"
  by (auto simp: bucket_for_def level_def refill_def secs_f64_def split: option.splits if_splits)

lemma bucket_for_level0:
  "bucket_for bs ip 0 now = Some b \<Longrightarrow> refill b now (lm_rate l) (lm_burst l) \<le> level l now bs ip"
  by (auto simp: bucket_for_def level_def refill_def secs_f64_def split: option.splits if_splits)

lemma level_step:
  assumes ok: "limiter_ok now bs" and l: "lm_burst l \<le> 60 * lm_rate l" "0 < lm_burst l" "0 < lm_rate l"
  shows "level l now (fst (limit_step l bs (now, e))) ip
    + (if e = Request ip \<and> snd (limit_step l bs (now, e)) then 1 else 0) \<le> level l now bs ip"
proof -
  note ev = level_evict [OF ok l(1)]
  show ?thesis
  proof (cases e)
    case (Request ip')
    show ?thesis
    proof (cases "bucket_for (evict_old bs now) ip' (of_nat (lm_burst l)) now")
      case None
      with Request l ev show ?thesis by (simp add: allow_request_def)
    next
      case (Some b)
      let ?t = "refill b now (lm_rate l) (lm_burst l)"
      have spent: "refill (b\<lparr>bk_tokens := x, bk_updated := now, bk_last_seen := now\<rparr>) now r c = min x (of_nat c)" for x r c
        by (simp add: refill_def secs_f64_def)
      have "?t \<le> of_nat (lm_burst l)" by (simp add: refill_def)
      with Some Request l ev bucket_for_level [OF Some] show ?thesis
        by (cases "ip = ip'") (auto simp: allow_request_def Let_def level_other level_update spent)
    qed
  next
    case (Connect ip')
    show ?thesis
    proof (cases "bucket_for (evict_old bs now) ip' 0 now")
      case None
      with Connect l ev show ?thesis by (simp add: try_connection_def)
    next
      case (Some b)
      have "refill (b\<lparr>bk_connections := n, bk_last_seen := now\<rparr>) now r c = refill b now r c" for n r c
        by (simp add: refill_def)
      moreover have "refill b now (lm_rate l) (lm_burst l) \<le> level l now bs ip'"
        using bucket_for_level0 [OF Some, of l] ev by simp
      ultimately show ?thesis using Some Connect ev
        by (cases "ip = ip'") (auto simp: try_connection_def Let_def level_other level_update)
    qed
  next
    case (Release ip')
    then show ?thesis
      by (cases "map_of bs ip'"; cases "ip = ip'")
         (auto simp: release_connection_def level_other level_update, simp add: level_def refill_def)
  qed
qed

text \<open>The credit an address has at the start and what flows in pay for every admitted request.\<close>

lemma admitted_bound:
  assumes "sorted (map fst es)" "\<forall>e \<in> set es. t0 \<le> fst e \<and> fst e \<le> t1" "t0 \<le> t1" "limiter_ok t0 bs"
    "lm_burst l \<le> 60 * lm_rate l" "0 < lm_burst l" "0 < lm_rate l"
  shows "of_nat (admitted l ip bs es) \<le> level l t0 bs ip + secs_f64 (t1 - t0) * of_nat (lm_rate l)"
  using assms(1-4)
proof (induction es arbitrary: t0 bs)
  case Nil
  have "0 \<le> level l t0 bs ip"
    using Nil.prems(4) limiter_okD by (auto simp: level_def split: option.splits intro!: refill_nonneg)
  moreover have "0 \<le> secs_f64 (t1 - t0) * of_nat (lm_rate l)" by (simp add: secs_f64_def)
  ultimately show ?case by simp
next
  case (Cons e es)
  obtain now ev where e: "e = (now, ev)" by (cases e)
  have t: "t0 \<le> now" "now \<le> t1" using Cons.prems(2) by (simp_all add: e)
  have ok: "limiter_ok now bs" using Cons.prems(4) t(1) by (rule limiter_ok_mono)
  let ?bs = "fst (limit_step l bs e)"
  have "of_nat (admitted l ip ?bs es) \<le> level l now ?bs ip + secs_f64 (t1 - now) * of_nat (lm_rate l)"
    using Cons.prems(1,2) t by (intro Cons.IH) (auto simp: e limit_step_ok [OF ok])
  moreover have "level l now ?bs ip + (if ev = Request ip \<and> snd (limit_step l bs e) then 1 else 0) \<le> level l now bs ip"
    unfolding e by (rule level_step [OF ok assms(5-7)])
  moreover have "level l now bs ip \<le> level l t0 bs ip + secs_f64 (now - t0) * of_nat (lm_rate l)"
    by (rule level_later [OF Cons.prems(4) t(1)])
  moreover have "secs_f64 (t1 - t0) * of_nat (lm_rate l)
      = secs_f64 (now - t0) * of_nat (lm_rate l) + secs_f64 (t1 - now) * of_nat (lm_rate l)"
    using t by (simp add: secs_f64_def of_nat_diff field_simps)
  moreover have "of_nat (admitted l ip bs (e # es)) =
      (if ev = Request ip \<and> snd (limit_step l bs e) then 1 else 0) + (of_nat (admitted l ip ?bs es) :: rat)"
    by (simp only: admitted.simps of_nat_add e snd_conv of_bool_def [symmetric] of_nat_of_bool)
  ultimately show ?case by linarith
qed



section \<open>Connections per address\<close>

text \<open>The connections of an address that were admitted and not yet released.\<close>

fun held :: "limits \<Rightarrow> ip_addr \<Rightarrow> nat \<Rightarrow> limiter \<Rightarrow> (nat \<times> limit_event) list \<Rightarrow> nat" where
  "held l ip n bs [] = n"
| "held l ip n bs (e # es) =
     (let r = limit_step l bs e in
      held l ip (if snd e = Connect ip \<and> snd r then n + 1 else if snd e = Release ip then n - 1 else n) (fst r) es)"

text \<open>The table counts them.\<close>

definition counted :: "nat \<Rightarrow> limiter \<Rightarrow> ip_addr \<Rightarrow> nat \<Rightarrow> bool" where
  "counted t0 bs ip n \<longleftrightarrow>
     (case map_of bs ip of None \<Rightarrow> n = 0 | Some b \<Rightarrow> bk_connections b = n \<and> t0 \<le> bk_last_seen b)"

lemma counted_evict:
  assumes "counted t0 bs ip n" "distinct (map fst bs)" "t0 \<le> now" "now < t0 + 300 * nanos"
  shows "counted t0 (evict_old bs now) ip n"
proof (cases "map_of bs ip")
  case (Some b)
  have "keep_bucket now b \<or> bk_connections b = 0"
    using assms(1,4) Some by (auto simp: counted_def keep_bucket_def)
  with Some assms(1,2) show ?thesis by (auto simp: counted_def evict_old_def map_of_filter_snd)
qed (use assms in \<open>simp add: counted_def evict_old_def map_of_filter_snd\<close>)

lemma counted_bucket:
  "counted t0 bs ip n \<Longrightarrow> t0 \<le> now \<Longrightarrow> bucket_for bs ip t now = Some b \<Longrightarrow> bk_connections b = n \<and> t0 \<le> bk_last_seen b"
  by (auto simp: counted_def bucket_for_def split: option.splits if_splits)

lemma counted_update:
  "counted t0 (AList.update ip' b bs) ip n \<longleftrightarrow>
   (if ip' = ip then bk_connections b = n \<and> t0 \<le> bk_last_seen b else counted t0 bs ip n)"
  by (simp add: counted_def update_conv')

lemma counted_step:
  fixes e :: limit_event
  assumes c: "counted t0 bs ip n" and d: "distinct (map fst bs)" and t: "t0 \<le> now" "now < t0 + 300 * nanos"
    and m: "0 < lm_max l" "n \<le> lm_max l"
  defines "r \<equiv> limit_step l bs (now, e)"
  defines "n' \<equiv> (if e = Connect ip \<and> snd r then n + 1 else if e = Release ip then n - 1 else n)"
  shows "counted t0 (fst r) ip n' \<and> n' \<le> lm_max l"
proof -
  note ev = counted_evict [OF c d t]
  show ?thesis
  proof (cases e)
    case (Request ip')
    with c ev m counted_bucket [OF ev t(1)] t(1) show ?thesis
      by (auto simp: r_def n'_def allow_request_def Let_def counted_update split: option.splits)
  next
    case (Connect ip')
    with ev m counted_bucket [OF ev t(1)] t(1) show ?thesis
      by (auto simp: r_def n'_def try_connection_def Let_def counted_update split: option.splits)
  next
    case (Release ip')
    with c m t(1) show ?thesis
      by (auto simp: r_def n'_def release_connection_def counted_update split: option.splits) (auto simp: counted_def)
  qed
qed

lemma limiter_distinct: "distinct (map fst bs) \<Longrightarrow> distinct (map fst (fst (limit_step l bs e)))"
  by (cases "(l, bs, e)" rule: limit_step.cases)
     (auto simp: allow_request_def try_connection_def release_connection_def evict_old_def Let_def
       distinct_update distinct_map_filter split: option.splits)



text \<open>The bound on the period is needed: a connection that stays open for 300 seconds is forgotten.\<close>

lemma connection_cap_lost:
  "held \<lparr>lm_rate = 0, lm_burst = 0, lm_max = 1\<rparr> (V4 0) 0 [] [(0, Connect (V4 0)), (300 * nanos, Connect (V4 0))] = 2"
  by code_simp

end
