(* ===== verification/Router.thy ===== *)
theory Router
  imports Static Admission
begin

text \<open>
  The request handler (\<open>src/src/router/handler.rs\<close>): rate limit, virtual host, access rules, redirects,
  directory listings, conditional and range requests, compression and the access log. A result of
  \<open>None\<close> stands for a panic, or for an index lookup that does not return.
\<close>

section \<open>The world of the handler\<close>

text \<open>
  \<open>rw_roots\<close> gives the canonical path of a document root with the tree below it, \<open>rw_nodes\<close> what is at
  a path itself, \<open>rw_clock\<close> the monotonic time in nanoseconds, \<open>rw_now\<close> the seconds since the epoch,
  \<open>rw_elapsed\<close> the text of the milliseconds a request took, and \<open>rw_fails\<close> the log destinations
  that cannot be written.
\<close>

record router_world =
  rw_roots :: "string \<Rightarrow> doc_root option"
  rw_nodes :: "string \<Rightarrow> doc_node option"
  rw_clock :: nat
  rw_now :: nat
  rw_elapsed :: string
  rw_fails :: "string \<Rightarrow> bool"
  rw_manager :: config_manager
  rw_limiter :: limiter
  rw_metrics :: metrics
  rw_log :: log_writes

definition QUOTE :: string where "QUOTE = [CHR 0x22]"

definition json_field :: "string \<Rightarrow> string \<Rightarrow> string" where
  "json_field name v = QUOTE @ name @ QUOTE @ '':'' @ QUOTE @ json_escape v @ QUOTE"

definition access_line :: "server_config \<Rightarrow> string \<Rightarrow> string \<Rightarrow> http_request \<Rightarrow> http_response \<Rightarrow> nat \<Rightarrow> string" where
  "access_line cfg elapsed peer_ip req resp body_bytes =
     (let m = show_method (rq_method req); st = show_nat (status_u16 (rs_status resp)) in
      if eq_ignore_ascii_case (sc_log_format cfg) ''json'' then
        ''{'' @ json_field ''remote_addr'' peer_ip @ '','' @ json_field ''method'' m @ '',''
        @ json_field ''path'' (rq_uri req) @ '','' @ json_field ''protocol'' (rq_version req) @ '',''
        @ QUOTE @ ''status'' @ QUOTE @ '':'' @ st @ '','' @ QUOTE @ ''response_bytes'' @ QUOTE @ '':'' @ show_nat body_bytes
        @ '','' @ QUOTE @ ''duration_ms'' @ QUOTE @ '':'' @ elapsed @ ''}'' @ [LF]
      else
        ''[INFO] '' @ peer_ip @ '' '' @ QUOTE @ m @ '' '' @ rq_uri req @ '' '' @ rq_version req @ QUOTE @ '' '' @ st
        @ '' '' @ show_nat body_bytes @ '' '' @ elapsed @ ''ms'' @ [LF])"

definition log_access :: "server_config \<Rightarrow> router_world \<Rightarrow> string \<Rightarrow> http_request \<Rightarrow> http_response \<Rightarrow> router_world" where
  "log_access cfg w peer_ip req resp =
     (let body_bytes = (if rq_method req = Head then 0 else body_len resp) in
      w\<lparr>rw_metrics := record_response (status_u16 (rs_status resp)) body_bytes (rw_metrics w),
        rw_log := rw_log w @ write_line (rw_fails w) (sc_access_log cfg)
                    (access_line cfg (rw_elapsed w) peer_ip req resp body_bytes)\<rparr>)"

section \<open>Answers\<close>

definition text_plain :: string where "text_plain = ''text/plain; charset=utf-8''"

definition text_response :: "status_code \<Rightarrow> string \<Rightarrow> http_response" where
  "text_response status body = with_body (response_new status) (str_bytes body) text_plain"

definition decorate :: "directory_config \<Rightarrow> http_response \<Rightarrow> http_response" where
  "decorate dc resp = apply_rule_headers (apply_custom_headers resp (dc_headers dc)) dc"

definition metrics_response :: "metrics \<Rightarrow> http_response" where
  "metrics_response m =
     with_body (with_header (response_new Ok) ''Content-Type'' ''text/plain; version=0.0.4'')
       (str_bytes (render_prometheus m)) ''text/plain; version=0.0.4''"

text \<open>What is answered before the path is looked at.\<close>

definition early_answer :: "metrics \<Rightarrow> http_request \<Rightarrow> http_response option" where
  "early_answer m req =
     (if hd (split_char (CHR ''?'') (rq_uri req)) = ''/metrics'' then Some (metrics_response m)
      else case rq_method req of
             Get \<Rightarrow> None
           | Head \<Rightarrow> None
           | Post \<Rightarrow> Some (text_response NotImplemented ''501 Not Implemented: POST method not supported'')
           | Other _ \<Rightarrow>
               Some (with_body (with_header (response_new MethodNotAllowed) ''Allow'' ''GET, HEAD'')
                       (str_bytes ''405 Method Not Allowed'') text_plain))"

text \<open>The path of a request, or the answer to a target without one.\<close>

definition request_path :: "http_request \<Rightarrow> http_response + (string \<times> string)" where
  "request_path req =
     (case percent_decode_recursive (rq_uri req) of
        None \<Rightarrow> Inl (text_response BadRequest ''400 Bad Request: Invalid URI encoding'')
      | Some decoded_uri \<Rightarrow>
          (let clean_path = before_query decoded_uri in
           case normalize_relative_path clean_path of
             Inl e \<Rightarrow> Inl (text_response Forbidden ''403 Forbidden: Path traversal attempt denied'')
           | Inr rel_path \<Rightarrow>
               if is_protected_rule_path rel_path then Inl (text_response NotFound ''404 Not Found'')
               else Inr (clean_path, rel_path)))"

definition ip_denied :: "directory_config \<Rightarrow> ip_addr \<Rightarrow> bool" where
  "ip_denied dc ip \<longleftrightarrow>
     ip \<in> set (dc_deny_ips dc)
     \<or> list_ex (\<lambda>n. cidr_contains n ip) (dc_deny_networks dc)
     \<or> (dc_allow_networks dc \<noteq> [] \<and> \<not> list_ex (\<lambda>n. cidr_contains n ip) (dc_allow_networks dc))"

definition deny_hidden :: "server_config \<Rightarrow> directory_config \<Rightarrow> bool" where
  "deny_hidden cfg dc = (case dc_deny_hidden_files dc of Some b \<Rightarrow> b | None \<Rightarrow> sc_deny_hidden_files cfg)"

text \<open>The answers that the rules of the directory give: methods, hidden names, addresses, redirects.\<close>

definition rule_answer :: "server_config \<Rightarrow> directory_config \<Rightarrow> http_request \<Rightarrow> socket_addr option \<Rightarrow> string \<Rightarrow> string \<Rightarrow>
    http_response option" where
  "rule_answer cfg dc req peer clean_path rel_path =
     (if (case dc_methods dc of
            Some ms \<Rightarrow> \<not> list_ex (\<lambda>m. eq_ignore_ascii_case m (show_method (rq_method req))) ms
          | None \<Rightarrow> False)
      then Some (with_body (with_header (response_new MethodNotAllowed) ''Allow'' (join_with '', '' (the (dc_methods dc))))
                   (str_bytes ''405 Method Not Allowed'') text_plain)
      else if deny_hidden cfg dc \<and> has_hidden_component rel_path
      then Some (decorate dc (text_response Forbidden ''403 Forbidden: Access to hidden files is restricted''))
      else if (case peer of Some addr \<Rightarrow> ip_denied dc (fst addr) | None \<Rightarrow> False)
      then Some (decorate dc (text_response Forbidden ''403 Forbidden: Access denied by IP rule''))
      else case dc_redirect dc of
             Some rule \<Rightarrow>
               if rd_source rule = clean_path
               then Some (decorate dc
                      (with_body (with_header (response_new (if rd_status rule = 301 then MovedPermanently else Found))
                          ''Location'' (rd_target rule)) [] text_plain))
               else None
           | None \<Rightarrow> None)"

definition configured_indexes :: "directory_config \<Rightarrow> string list" where
  "configured_indexes dc = (case dc_index_files dc of Some fs \<Rightarrow> fs | None \<Rightarrow> [''index.html''])"

definition open_path :: "directory_config \<Rightarrow> string \<Rightarrow> string" where
  "open_path dc rel_path =
     (if rel_path = [] then
        (case dc_index_files dc of Some (f # fs) \<Rightarrow> f | _ \<Rightarrow> ''index.html'')
      else rel_path)"

text \<open>The answer for a directory: a redirect to the path with a slash, or a listing.\<close>

definition directory_answer :: "server_config \<Rightarrow> directory_config \<Rightarrow> doc_root \<Rightarrow> string \<Rightarrow> string \<Rightarrow> http_response option option" where
  "directory_answer cfg dc docs clean_path rel_path =
     (case open_beneath_directory docs rel_path of
        None \<Rightarrow> Some None
      | Some directory \<Rightarrow>
          if \<not> ends_with clean_path ''/'' \<and> clean_path \<noteq> [] then
            Some (Some (decorate dc
              (with_body (with_header (response_new MovedPermanently) ''Location'' (clean_path @ ''/'')) [] text_plain)))
          else
            (case first_ok (\<lambda>index. open_beneath docs (path_push rel_path index)) (configured_indexes dc) of
               None \<Rightarrow> None
             | Some found \<Rightarrow>
                 if found = None \<and> dc_autoindex dc = Some True then
                   Some (Some (decorate dc
                     (with_body (response_new Ok) (render_directory_listing directory (deny_hidden cfg dc))
                        ''text/html; charset=utf-8'')))
                 else Some None))"

definition MAX_ERROR_PAGE_BYTES :: nat where "MAX_ERROR_PAGE_BYTES = 1024 * 1024"

definition error_page_path :: "directory_config \<Rightarrow> string option" where
  "error_page_path dc =
     (case find (\<lambda>(status, _). status = 404) (dc_error_pages dc) of
        Some (_, p) \<Rightarrow> Some p
      | None \<Rightarrow> dc_redirect_404 dc)"

definition handle_404 :: "doc_root \<Rightarrow> directory_config \<Rightarrow> http_response option" where
  "handle_404 docs dc =
     (let plain = text_response NotFound ''404 Not Found'' in
      case error_page_path dc of
        None \<Rightarrow> Some plain
      | Some p \<Rightarrow>
          (case normalize_relative_path p of
             Inl e \<Rightarrow> Some plain
           | Inr relative \<Rightarrow>
               if is_protected_rule_path relative then Some plain
               else case open_beneath docs relative of
                      None \<Rightarrow> None
                    | Some None \<Rightarrow> Some plain
                    | Some (Some (file, actual_path)) \<Rightarrow>
                        (case read_file (MAX_ERROR_PAGE_BYTES + 1) file of
                           Inl k \<Rightarrow> Some plain
                         | Inr content \<Rightarrow>
                             if length content \<le> MAX_ERROR_PAGE_BYTES
                             then Some (with_body (response_new NotFound) content (get_mime_type actual_path))
                             else Some plain)))"

section \<open>Serving a file\<close>

definition mtime_secs :: "doc_file \<Rightarrow> nat" where
  "mtime_secs f = df_mtime f div 10 ^ 9"

definition not_modified :: "http_request \<Rightarrow> string \<Rightarrow> nat \<Rightarrow> bool" where
  "not_modified req etag secs =
     (case get_header req ''If-None-Match'' of
        Some v \<Rightarrow> (let client_etag = trim v in client_etag = ''*'' \<or> client_etag = etag \<or> str_contains client_etag etag)
      | None \<Rightarrow>
          (case get_header req ''If-Modified-Since'' of
             None \<Rightarrow> False
           | Some v \<Rightarrow> (case parse_http_date (trim v) of None \<Rightarrow> False | Some t \<Rightarrow> secs \<le> t)))"

definition with_validators :: "http_response \<Rightarrow> string \<Rightarrow> string \<Rightarrow> http_response" where
  "with_validators r etag last_modified = with_header (with_header r ''ETag'' etag) ''Last-Modified'' last_modified"

definition file_response :: "http_request \<Rightarrow> doc_file \<Rightarrow> string \<Rightarrow> http_response" where
  "file_response req file mime_type =
     (let file_size = df_len file;
          etag = generate_etag (mtime_secs file) file_size;
          last_modified = format_http_date (mtime_secs file);
          full = with_file (with_header (with_validators (response_new Ok) etag last_modified) ''Accept-Ranges'' ''bytes'')
                   (df_handle file) file_size mime_type
      in if not_modified req etag (mtime_secs file)
         then with_validators (response_new NotModified) etag last_modified
         else if rq_method req = Get \<and> get_header req ''Range'' \<noteq> None then
           (case parse_range_header (trim (the (get_header req ''Range''))) file_size of
              Inr (Some rg) \<Rightarrow>
                with_file_range
                  (with_header
                    (with_header (with_validators (response_new PartialContent) etag last_modified)
                      ''Content-Range'' (''bytes '' @ show_nat (rg_start rg) @ ''-'' @ show_nat (rg_end rg) @ ''/'' @ show_nat file_size))
                    ''Accept-Ranges'' ''bytes'')
                  (df_handle file) (rg_start rg) (rg_end rg - rg_start rg + 1) mime_type
            | Inl _ \<Rightarrow>
                with_body (with_header (response_new RangeNotSatisfiable) ''Content-Range'' (''bytes */'' @ show_nat file_size))
                  (str_bytes ''416 Range Not Satisfiable'') text_plain
            | Inr None \<Rightarrow> full)
         else if rq_method req = Head then
           with_header
             (with_validators
               (with_header (with_header (response_new Ok) ''Content-Length'' (show_nat file_size)) ''Content-Type'' mime_type)
               etag last_modified)
             ''Accept-Ranges'' ''bytes''
         else full)"

text \<open>The headers of the cache rules. \<open>SystemTime\<close> cannot pass \<open>2^63 - 1\<close> seconds; the addition panics.\<close>

definition cache_headers :: "directory_config \<Rightarrow> nat \<Rightarrow> http_response \<Rightarrow> http_response option" where
  "cache_headers dc now resp =
     (let resp = (case dc_cache dc of
                    Some True \<Rightarrow> with_header resp ''Cache-Control'' ''public''
                  | Some False \<Rightarrow> with_header resp ''Cache-Control'' ''no-store''
                  | None \<Rightarrow> resp)
      in case dc_expires dc of
           None \<Rightarrow> Some resp
         | Some secs \<Rightarrow>
             if now + secs < 2 ^ 63 then Some (with_header resp ''Expires'' (format_http_date (now + secs))) else None)"

definition negotiate :: "server_config \<Rightarrow> http_request \<Rightarrow> http_response \<Rightarrow> http_response" where
  "negotiate cfg req resp =
     (let negotiable = rq_method req = Get \<and> rs_status resp = Ok \<and> body_len resp \<ge> sc_compression_min_size cfg
            \<and> response_mime_is_compressible resp (sc_compression_mime_types cfg);
          resp = (if negotiable \<and> get_header req ''Accept-Encoding'' \<noteq> None
                  then resp\<lparr>rs_headers := ensure_vary_accept_encoding (rs_headers resp)\<rparr> else resp)
      in if negotiable \<and> sc_compression_enabled cfg \<and> handler_accepts_gzip (get_header req ''Accept-Encoding'')
         then (case rs_body resp of
                 FileBody file n \<Rightarrow>
                   resp\<lparr>rs_headers :=
                          vary_etag_for_encoding (remove_header (rs_headers resp) ''Content-Length'') ''gzip''
                          @ [(''Content-Encoding'', ''gzip'')],
                        rs_body := GzipFile file n (sc_compression_level cfg)\<rparr>
               | _ \<Rightarrow> resp)
         else resp)"

definition file_answer :: "server_config \<Rightarrow> directory_config \<Rightarrow> nat \<Rightarrow> http_request \<Rightarrow> doc_file \<Rightarrow> string \<Rightarrow> http_response option" where
  "file_answer cfg dc now req file actual_path =
     (case cache_headers dc now (decorate dc (file_response req file (rule_mime_type dc actual_path))) of
        None \<Rightarrow> None
      | Some resp \<Rightarrow>
          (let resp = negotiate cfg req resp in
           Some (if rq_method req = Head then resp\<lparr>rs_body := BytesBody []\<rparr> else resp)))"

section \<open>The handler\<close>

text \<open>The answer once the rules of the directory are known.\<close>

definition answer_from :: "server_config \<Rightarrow> directory_config \<Rightarrow> doc_root option \<Rightarrow> nat \<Rightarrow> http_request \<Rightarrow> socket_addr option \<Rightarrow>
    string \<Rightarrow> string \<Rightarrow> http_response option" where
  "answer_from cfg dc found now req peer clean_path rel_path =
     (case rule_answer cfg dc req peer clean_path rel_path of
        Some resp \<Rightarrow> Some resp
      | None \<Rightarrow>
          (case found of
             None \<Rightarrow> Some (text_response InternalServerError ''500 Internal Server Error'')
           | Some docs \<Rightarrow>
               (case directory_answer cfg dc docs clean_path rel_path of
                  None \<Rightarrow> None
                | Some (Some resp) \<Rightarrow> Some resp
                | Some None \<Rightarrow>
                    (case open_beneath_with_index docs (open_path dc rel_path) (configured_indexes dc) of
                       None \<Rightarrow> None
                     | Some None \<Rightarrow> map_option (decorate dc) (handle_404 docs dc)
                     | Some (Some (file, actual_path)) \<Rightarrow> file_answer cfg dc now req file actual_path))))"

text \<open>The rules for a path, read through the cache, with the warnings of the rule parser in the log.\<close>

definition load_rules :: "server_config \<Rightarrow> router_world \<Rightarrow> string \<Rightarrow> (router_world \<times> directory_config) option" where
  "load_rules cfg w rel_path =
     (case get_config_for_dir (rw_manager w)
             (Some (sc_config_file cfg, map_option rule_view (rw_nodes w (sc_config_file cfg))))
             (map_option (\<lambda>docs. rule_view (snd docs)) (rw_roots w (sc_root_dir cfg)))
             (sc_root_dir cfg) rel_path (sc_dev_mode cfg) of
        None \<Rightarrow> None
      | Some (m, dc, warnings) \<Rightarrow>
          Some (w\<lparr>rw_manager := m,
                  rw_log := rw_log w @ concat (map (log_warn (rw_fails w) (cm_error_log m)) warnings)\<rparr>, dc))"

definition answer_request :: "server_config \<Rightarrow> router_world \<Rightarrow> http_request \<Rightarrow> socket_addr option \<Rightarrow>
    (router_world \<times> http_response) option" where
  "answer_request cfg w req peer =
     (case early_answer (rw_metrics w) req of
        Some resp \<Rightarrow> Some (w, resp)
      | None \<Rightarrow>
          (case request_path req of
             Inl resp \<Rightarrow> Some (w, resp)
           | Inr (clean_path, rel_path) \<Rightarrow>
               (case load_rules cfg w rel_path of
                  None \<Rightarrow> None
                | Some (w', dc) \<Rightarrow>
                    map_option (Pair w')
                      (answer_from cfg dc (rw_roots w' (sc_root_dir cfg)) (rw_now w') req peer clean_path rel_path))))"

text \<open>Every answer is logged, between the start and the end of the active request.\<close>

definition handle_request_inner :: "server_config \<Rightarrow> router_world \<Rightarrow> http_request \<Rightarrow> socket_addr option \<Rightarrow>
    (router_world \<times> http_response) option" where
  "handle_request_inner cfg w req peer =
     (let peer_ip = (case peer of Some addr \<Rightarrow> show_ip (fst addr) | None \<Rightarrow> ''unknown'') in
      case answer_request cfg (w\<lparr>rw_metrics := guard_begin (rw_metrics w)\<rparr>) req peer of
        None \<Rightarrow> None
      | Some (w', resp) \<Rightarrow>
          (let w'' = log_access cfg w' peer_ip req resp in
           Some (w''\<lparr>rw_metrics := guard_drop (rw_metrics w'')\<rparr>, resp)))"

definition handle_request :: "server_config \<Rightarrow> router_world \<Rightarrow> http_request \<Rightarrow> socket_addr option \<Rightarrow>
    (router_world \<times> http_response) option" where
  "handle_request cfg w req peer =
     (let (lim, allowed) =
            (case peer of
               Some addr \<Rightarrow>
                 allow_request (rw_limiter w) (rw_clock w) (fst addr) (sc_rate_limit_per_second cfg) (sc_rate_limit_burst cfg)
             | None \<Rightarrow> (rw_limiter w, True));
          w = w\<lparr>rw_limiter := lim\<rparr>
      in if \<not> allowed then
           Some (w, apply_security_headers
             (with_body (with_header (response_new TooManyRequests) ''Retry-After'' ''1'')
               (str_bytes ''429 Too Many Requests'') text_plain) cfg)
         else map_option (map_prod id (\<lambda>resp. apply_security_headers resp cfg))
           (handle_request_inner (if select_vhost cfg req \<noteq> None then effective_config cfg req else cfg) w req peer))"

section \<open>Questions of the dynamic handlers\<close>

definition normalized_request_path :: "http_request \<Rightarrow> string option" where
  "normalized_request_path req =
     (case percent_decode_recursive (rq_uri req) of
        None \<Rightarrow> None
      | Some decoded_uri \<Rightarrow>
          (case normalize_relative_path (before_query decoded_uri) of Inl e \<Rightarrow> None | Inr p \<Rightarrow> Some p))"

definition request_path_is_safe :: "http_request \<Rightarrow> server_config \<Rightarrow> bool" where
  "request_path_is_safe req cfg =
     (case normalized_request_path req of
        None \<Rightarrow> False
      | Some relative \<Rightarrow>
          \<not> is_protected_rule_path relative \<and> (\<not> sc_deny_hidden_files cfg \<or> \<not> has_hidden_component relative))"

text \<open>Every lookup here uses plain file names as indexes, so each returns.\<close>

definition opens :: "(doc_file \<times> string) option option \<Rightarrow> bool" where
  "opens r = (case r of Some (Some _) \<Rightarrow> True | _ \<Rightarrow> False)"

definition request_has_static_target :: "(string \<Rightarrow> doc_root option) \<Rightarrow> http_request \<Rightarrow> server_config \<Rightarrow> bool" where
  "request_has_static_target roots req cfg =
     (case normalized_request_path req of
        None \<Rightarrow> False
      | Some relative \<Rightarrow>
          if \<not> request_path_is_safe req cfg then False
          else case roots (sc_root_dir cfg) of
            None \<Rightarrow> False
          | Some docs \<Rightarrow>
              (let indexes = [''index.html'', ''index.htm''] in
               if relative \<noteq> [] then
                 opens (open_beneath_with_index docs relative indexes) \<or> open_beneath_directory docs relative \<noteq> None
               else if open_beneath_directory docs relative = None then False
               else if list_ex (\<lambda>i. opens (open_beneath docs i)) indexes then True
               else case sc_front_controller cfg of
                      None \<Rightarrow> True
                    | Some controller \<Rightarrow>
                        (case normalize_relative_path controller of
                           Inl e \<Rightarrow> True
                         | Inr controller_relative \<Rightarrow> \<not> opens (open_beneath docs controller_relative))))"

end
