(* ===== verification/Router_Safety.thy ===== *)
theory Router_Safety
  imports Router
begin

text \<open>
  What the request handler serves: only regular files below the document root, reached without
  symbolic links, never a rule file that was asked for, and nothing to a peer that the rules of the
  path deny; and that the handler returns.
\<close>

section \<open>Index names of parsed rules are plain names\<close>

definition index_ok :: "directory_config \<Rightarrow> bool" where
  "index_ok dc \<longleftrightarrow> (case dc_index_files dc of None \<Rightarrow> True | Some fs \<Rightarrow> simple_names fs)"

definition rules_ok :: "config_manager \<Rightarrow> bool" where
  "rules_ok m \<longleftrightarrow> (\<forall>e \<in> set (cm_cache m). index_ok (ce_config (snd e)))"

lemma index_ok_default: "index_ok directory_config_default"
  by (simp add: index_ok_def directory_config_default_def)

lemma directive_keeps_index:
  "directive_header ts c = Inr dc \<Longrightarrow> dc_index_files dc = dc_index_files c"
  "directive_remove_header ts c = Inr dc \<Longrightarrow> dc_index_files dc = dc_index_files c"
  "directive_redirect ts c = Inr dc \<Longrightarrow> dc_index_files dc = dc_index_files c"
  "directive_rewrite ts c = Inr dc \<Longrightarrow> dc_index_files dc = dc_index_files c"
  "directive_access ts c = Inr dc \<Longrightarrow> dc_index_files dc = dc_index_files c"
  "directive_methods ts c = Inr dc \<Longrightarrow> dc_index_files dc = dc_index_files c"
  "directive_switch ts c = Inr dc \<Longrightarrow> dc_index_files dc = dc_index_files c"
  "directive_expires ts c = Inr dc \<Longrightarrow> dc_index_files dc = dc_index_files c"
  "directive_mime ts c = Inr dc \<Longrightarrow> dc_index_files dc = dc_index_files c"
  "directive_error_page ts c = Inr dc \<Longrightarrow> dc_index_files dc = dc_index_files c"
  subgoal by (auto simp: directive_header_def Let_def split: sum.splits if_splits option.splits)
  subgoal by (auto simp: directive_remove_header_def Let_def split: sum.splits if_splits option.splits)
  subgoal by (auto simp: directive_redirect_def Let_def split: sum.splits if_splits option.splits)
  subgoal by (auto simp: directive_rewrite_def Let_def split: sum.splits if_splits option.splits)
  subgoal by (auto simp: directive_access_def Let_def split: sum.splits if_splits option.splits)
  subgoal by (auto simp: directive_methods_def Let_def split: sum.splits if_splits option.splits)
  subgoal by (auto simp: directive_switch_def Let_def split: sum.splits if_splits option.splits)
  subgoal by (auto simp: directive_expires_def Let_def split: sum.splits if_splits option.splits)
  subgoal by (auto simp: directive_mime_def Let_def split: sum.splits if_splits option.splits)
  subgoal by (auto simp: directive_error_page_def Let_def split: sum.splits if_splits option.splits)
  done

lemma directive_index_ok:
  assumes "directive_index ts c = Inr dc"
  shows "index_ok dc"
proof -
  obtain fs where "\<not> list_ex (\<lambda>f. f = [] \<or> contains_any f [CHR ''/''] \<or> f = ''.'' \<or> f = ''..'') fs"
    and "dc = c\<lparr>dc_index_files := Some fs\<rparr>"
    using assms by (simp add: directive_index_def split: sum.splits if_splits)
  then show ?thesis by (simp add: index_ok_def simple_name_def contains_any_def list_ex_iff list_all_iff)
qed

lemma if_eqE: "(if b then x else y) = z \<Longrightarrow> (x = z \<Longrightarrow> Q) \<Longrightarrow> (y = z \<Longrightarrow> Q) \<Longrightarrow> Q"
  by (cases b) simp_all

lemma same_index_ok: "index_ok c \<Longrightarrow> dc_index_files dc = dc_index_files c \<Longrightarrow> index_ok dc"
  by (simp add: index_ok_def)

lemma native_index_ok:
  assumes "parse_native_directive l c = Inr dc" "index_ok c"
  shows "index_ok dc"
proof (cases "tokenize_rule_line l")
  case (Inl m)
  with assms(1) show ?thesis by (simp add: parse_native_directive_def)
next
  case (Inr ts)
  from assms(1) [unfolded parse_native_directive_def Inr sum.case] show ?thesis
    by (elim if_eqE) (erule directive_index_ok | (drule directive_keeps_index, erule same_index_ok [OF assms(2)]) | use assms(2) in simp)+
qed

lemma dir_key_index: "dir_key is_root k v c = Inr c' \<Longrightarrow> index_ok (snd c) \<Longrightarrow> index_ok (snd c')"
  by (auto simp: dir_key_def index_ok_def split: prod.splits if_splits option.splits)

lemma parse_line_index: "parse_line is_root l c = Inr c' \<Longrightarrow> index_ok (snd c) \<Longrightarrow> index_ok (snd c')"
  by (auto simp: parse_line_def legacy_key_def Let_def split: if_splits option.splits sum.splits
      intro: native_index_ok dir_key_index)

lemma parse_lines_index:
  "parse_lines is_root file n ls c errs = Some (sc, dc, errs') \<Longrightarrow> index_ok (snd c) \<Longrightarrow> index_ok dc"
proof (induction ls arbitrary: n c errs)
  case (Cons l ls)
  then show ?case
    by (auto split: sum.splits rule_error.splits dest: parse_line_index)
qed auto

lemma parse_content_index: "parse_veysrule_content s file is_root = Some (sc, dc, errs) \<Longrightarrow> index_ok dc"
  by (auto simp: parse_veysrule_content_def index_ok_default dest: parse_lines_index)

lemma parse_file_index: "parse_veysrule_file s file is_root = Some (sc, dc, errs) \<Longrightarrow> index_ok dc"
  by (auto simp: parse_veysrule_file_def index_ok_default dest: parse_content_index split: option.splits if_splits)

lemma merge_index: "index_ok a \<Longrightarrow> index_ok b \<Longrightarrow> index_ok (merge a b)"
  by (auto simp: index_ok_def merge_def Let_def override_def split: option.splits)

lemma load_parsed_index:
  assumes "load_parsed m key dev mtime parsed = Some (m', r, ws)" "rules_ok m"
    "\<And>sc dc errs. parsed = Some (sc, dc, errs) \<Longrightarrow> index_ok dc"
  shows "rules_ok m' \<and> (\<forall>dc. r = Some dc \<longrightarrow> index_ok dc)"
proof (cases "cached m key dev mtime")
  case (Some dc)
  then have "index_ok dc" using assms(2)
    by (force simp: cached_def rules_ok_def dest: map_of_SomeD split: option.splits if_splits)
  then show ?thesis using Some assms(1,2) by (auto simp: load_parsed_def)
next
  case None
  then show ?thesis using assms
    by (fastforce simp: load_parsed_def store_parsed_def rules_ok_def dest!: set_al_update split: option.splits if_splits)
qed

lemma load_dir_index:
  "load_dir_config m file path dev is_root = Some (m', r, ws) \<Longrightarrow> rules_ok m \<Longrightarrow> rules_ok m' \<and> (\<forall>dc. r = Some dc \<longrightarrow> index_ok dc)"
  by (auto simp: load_dir_config_def split: option.splits fs_node.splits
      dest!: load_parsed_index intro: parse_file_index)

lemma load_beneath_index:
  "load_dir_config_beneath m t root_dir rel dev is_root = Some (m', r, ws) \<Longrightarrow> rules_ok m \<Longrightarrow> rules_ok m' \<and> (\<forall>dc. r = Some dc \<longrightarrow> index_ok dc)"
  by (auto simp: load_dir_config_beneath_def Let_def split: option.splits
      dest!: load_parsed_index intro: parse_content_index)

lemma merge_dirs_index:
  "merge_dirs m t root_dir dev ds acc ws = Some (m', dc, ws') \<Longrightarrow> rules_ok m \<Longrightarrow> index_ok acc \<Longrightarrow> rules_ok m' \<and> index_ok dc"
proof (induction ds arbitrary: m acc ws)
  case (Cons d ds)
  then obtain m1 r w1 where l: "load_dir_config_beneath m t root_dir (join_path d ''.veysrule'') dev False = Some (m1, r, w1)"
    by (auto split: option.splits)
  note k = load_beneath_index [OF l Cons.prems(2)]
  show ?case using Cons.prems Cons.IH [of m1 _ "ws @ w1"] l k merge_index by (cases r) auto
qed auto

lemma get_config_index:
  assumes "get_config_for_dir m rc t root_dir rel dev = Some (m', dc, ws)" "rules_ok m"
  shows "rules_ok m' \<and> index_ok dc"
proof -
  obtain m1 base w1 where b: "(case rc of None \<Rightarrow> Some (m, None, []) | Some (path, file) \<Rightarrow> load_dir_config m file path dev True)
      = Some (m1, base, w1)"
    using assms(1) by (auto simp: get_config_for_dir_def split: option.splits)
  then have ok: "rules_ok m1 \<and> (\<forall>dc. base = Some dc \<longrightarrow> index_ok dc)"
    using assms(2) load_dir_index by (fastforce split: option.splits)
  have "merge_dirs m1 t root_dir dev ([] # dirs_to_check [] (path_components rel))
      (case base of None \<Rightarrow> directory_config_default | Some dc \<Rightarrow> merge directory_config_default dc) w1 = Some (m', dc, ws)"
    using assms(1) b by (simp add: get_config_for_dir_def del: merge_dirs.simps)
  from merge_dirs_index [OF this] show ?thesis
    using ok merge_index index_ok_default by (auto split: option.splits)
qed

lemma load_rules_index:
  assumes "load_rules cfg w rel = Some (w', dc)" "rules_ok (rw_manager w)"
  shows "rules_ok (rw_manager w') \<and> index_ok dc"
  using assms by (auto simp: load_rules_def split: option.splits dest!: get_config_index)

section \<open>Which answers carry a file\<close>

definition file_body :: "http_response \<Rightarrow> file_handle option" where
  "file_body r = (case rs_body r of
     BytesBody bs \<Rightarrow> None | FileBody f n \<Rightarrow> Some f | FileRange f k n \<Rightarrow> Some f | GzipFile f n l \<Rightarrow> Some f)"

lemma body_simps [simp]:
  "rs_body (with_header r n v) = rs_body r"
  "rs_body (with_content r k t b) = b"
  "rs_body (apply_custom_headers r hs) = rs_body r"
  by (simp_all add: with_header_def with_content_def apply_custom_headers_def)
     (induction hs arbitrary: r; simp add: with_header_def)

lemma body_rule_headers [simp]: "rs_body (apply_rule_headers r dc) = rs_body r"
proof -
  have "rs_body (foldl (\<lambda>r name. r\<lparr>rs_headers := remove_header (rs_headers r) name\<rparr>) r ns) = rs_body r" for r :: http_response and ns
    by (induction ns arbitrary: r) simp_all
  then show ?thesis
    using body_simps(3) [of r "dc_add_headers dc"] by (simp add: apply_rule_headers_def apply_custom_headers_def)
qed

lemma body_security [simp]: "rs_body (apply_security_headers r cfg) = rs_body r"
proof -
  have "rs_body (foldl add_default_header r ds) = rs_body r" for ds
    by (induction ds arbitrary: r) (auto simp: add_default_header_def split: option.splits)
  then show ?thesis by (simp add: apply_security_headers_def)
qed

lemma file_body_simps [simp]:
  "file_body (with_header r name v) = file_body r"
  "file_body (with_body r bs t) = None"
  "file_body (with_file r f n t) = Some f"
  "file_body (with_file_range r f k n t) = Some f"
  "file_body (response_new st) = None"
  "file_body (decorate dc r) = file_body r"
  "file_body (text_response st s) = None"
  "file_body (apply_security_headers r cfg) = file_body r"
  by (simp_all add: file_body_def decorate_def text_response_def with_body_def with_file_def with_file_range_def response_new_def)

lemma early_no_file: "early_answer m req = Some r \<Longrightarrow> file_body r = None"
  by (auto simp: early_answer_def metrics_response_def split: if_splits http_method.splits)

lemma path_no_file: "request_path req = Inl r \<Longrightarrow> file_body r = None"
  by (auto simp: request_path_def Let_def split: option.splits sum.splits if_splits)

lemma rule_no_file: "rule_answer cfg dc req peer clean rel = Some r \<Longrightarrow> file_body r = None"
  by (auto simp: rule_answer_def split: if_splits option.splits)

lemma directory_no_file: "directory_answer cfg dc docs clean rel = Some (Some r) \<Longrightarrow> file_body r = None"
  by (auto simp: directory_answer_def split: if_splits option.splits)

lemma missing_no_file: "handle_404 docs dc = Some r \<Longrightarrow> file_body r = None"
  by (auto simp: handle_404_def Let_def split: if_splits option.splits sum.splits)

lemma file_response_file: "file_body (file_response req f t) = Some h \<Longrightarrow> h = df_handle f"
  by (auto simp: file_response_def with_validators_def Let_def split: if_splits option.splits sum.splits)

lemma cache_headers_file: "cache_headers dc now r = Some r' \<Longrightarrow> file_body r' = file_body r"
  by (auto simp: cache_headers_def Let_def split: if_splits option.splits bool.splits)

lemma negotiate_file: "file_body (negotiate cfg req r) = file_body r"
  by (auto simp: negotiate_def file_body_def Let_def split: body_source.splits)

lemma file_answer_file:
  assumes "file_answer cfg dc now req f p = Some r" "file_body r = Some h"
  shows "h = df_handle f \<and> rq_method req \<noteq> Head"
proof -
  obtain r1 where r1: "cache_headers dc now (decorate dc (file_response req f (rule_mime_type dc p))) = Some r1"
    and r: "r = (if rq_method req = Head then negotiate cfg req r1\<lparr>rs_body := BytesBody []\<rparr> else negotiate cfg req r1)"
    using assms(1) by (auto simp: file_answer_def Let_def split: option.splits)
  have "rq_method req \<noteq> Head" using assms(2) r by (auto simp: file_body_def)
  then show ?thesis
    using assms(2) r cache_headers_file [OF r1] negotiate_file [of cfg req r1] file_response_file [of req f] by simp
qed

section \<open>What is served\<close>

lemma configured_simple: "index_ok dc \<Longrightarrow> simple_names (configured_indexes dc)"
  by (auto simp: index_ok_def configured_indexes_def simple_name_def split: option.splits)

lemma open_path_components:
  assumes "index_ok dc"
  shows "\<exists>ks. normal_components (open_path dc rel) = normal_components rel @ ks
    \<and> set ks \<subseteq> insert ''index.html'' (set (configured_indexes dc))"
proof (cases "rel = []")
  case True
  let ?f = "open_path dc rel"
  have f: "simple_name ?f \<and> ?f \<in> insert ''index.html'' (set (configured_indexes dc))"
    using assms True by (auto simp: open_path_def index_ok_def configured_indexes_def simple_name_def split: option.splits list.splits)
  have "normal_components ?f = [?f]" using normal_components_path_of [of "[?f]"] f by simp
  then show ?thesis using f True by (auto simp: normal_components_def path_components_def starts_with_def)
qed (auto simp: open_path_def)

lemma answer_from_file:
  assumes "answer_from cfg dc found now req peer clean rel = Some r" "file_body r = Some h" "index_ok dc"
  shows "rule_answer cfg dc req peer clean rel = None \<and> rq_method req \<noteq> Head
    \<and> (\<exists>docs f ks. found = Some docs \<and> file_at (snd docs) (normal_components rel @ ks) = Some f
         \<and> h = df_handle f \<and> set ks \<subseteq> insert ''index.html'' (set (configured_indexes dc)))"
proof -
  obtain docs f p where rule: "rule_answer cfg dc req peer clean rel = None" and docs: "found = Some docs"
    and opn: "open_beneath_with_index docs (open_path dc rel) (configured_indexes dc) = Some (Some (f, p))"
    and ans: "file_answer cfg dc now req f p = Some r"
    using assms(1,2) rule_no_file directory_no_file missing_no_file
    by (fastforce simp: answer_from_def split: option.splits)
  from opened_file [OF opn configured_simple [OF assms(3)]] open_path_components [OF assms(3), of rel]
  obtain js ks where "normal_components (open_path dc rel) = normal_components rel @ ks"
    "set ks \<subseteq> insert ''index.html'' (set (configured_indexes dc))" "set js \<subseteq> set (configured_indexes dc)"
    "file_at (snd docs) (normal_components (open_path dc rel) @ js) = Some f" by blast
  then have "\<exists>ks. file_at (snd docs) (normal_components rel @ ks) = Some f \<and> set ks \<subseteq> insert ''index.html'' (set (configured_indexes dc))"
    by (intro exI [of _ "ks @ js"]) auto
  then show ?thesis using rule docs file_answer_file [OF ans assms(2)] by blast
qed

lemma load_rules_frame: "load_rules cfg w rel = Some (w', dc) \<Longrightarrow> rw_roots w' = rw_roots w \<and> rw_now w' = rw_now w"
  by (auto simp: load_rules_def split: option.splits)

lemma load_rules_same:
  "rw_manager w' = rw_manager w \<Longrightarrow> rw_roots w' = rw_roots w \<Longrightarrow> rw_nodes w' = rw_nodes w \<Longrightarrow>
   map_option snd (load_rules cfg w' rel) = map_option snd (load_rules cfg w rel)"
  by (auto simp: load_rules_def split: option.splits)

lemma effective_config_if: "(if select_vhost cfg req \<noteq> None then effective_config cfg req else cfg) = effective_config cfg req"
  by (auto simp: effective_config_def split: option.splits)

lemma answer_request_file:
  assumes "answer_request cfg w req peer = Some (w', r)" "file_body r = Some h"
  shows "\<exists>clean rel dc. (\<exists>m. early_answer m req = None) \<and> request_path req = Inr (clean, rel)
   \<and> map_option snd (load_rules cfg w rel) = Some dc
   \<and> answer_from cfg dc (rw_roots w (sc_root_dir cfg)) (rw_now w) req peer clean rel = Some r"
  using assms early_no_file path_no_file load_rules_frame
  by (fastforce simp: answer_request_def split: option.splits sum.splits prod.splits)

lemma handle_request_parts:
  assumes "handle_request cfg w req peer = Some (w', resp)" "file_body resp = Some h"
  shows "\<exists>r clean rel dc. (\<exists>m. early_answer m req = None) \<and> request_path req = Inr (clean, rel)
   \<and> map_option snd (load_rules (effective_config cfg req) w rel) = Some dc \<and> file_body r = Some h
   \<and> answer_from (effective_config cfg req) dc (rw_roots w (sc_root_dir (effective_config cfg req))) (rw_now w) req peer clean rel = Some r"
proof -
  obtain lim w1 r where inner: "handle_request_inner (effective_config cfg req) (w\<lparr>rw_limiter := lim\<rparr>) req peer = Some (w1, r)"
    and r: "file_body r = Some h"
    using assms unfolding handle_request_def effective_config_if
    by (auto simp: Let_def split: prod.splits if_splits)
  define w2 where "w2 = w\<lparr>rw_limiter := lim, rw_metrics := guard_begin (rw_metrics w)\<rparr>"
  from inner obtain w3 where ans: "answer_request (effective_config cfg req) w2 req peer = Some (w3, r)"
    by (auto simp: handle_request_inner_def w2_def Let_def split: option.splits prod.splits)
  have "map_option snd (load_rules c w2 rel) = map_option snd (load_rules c w rel)" for c rel
    by (rule load_rules_same) (simp_all add: w2_def)
  moreover have "rw_roots w2 = rw_roots w" "rw_now w2 = rw_now w" by (simp_all add: w2_def)
  ultimately show ?thesis using answer_request_file [OF ans r] r by metis
qed

text \<open>
  C34. If the response to a request carries a file, that file is a regular file of the document tree of
  the selected virtual host, reached through directories only and never through a symbolic link; its
  path is the normalised path of the request, continued by configured index names; the path asked
  for names no rule file and, where hidden files are denied, no hidden name; the method is allowed
  by the rules, and the peer is not denied by them.
\<close>

theorem served_file_confined:
  assumes "handle_request cfg w req peer = Some (w', resp)" "file_body resp = Some h" "rules_ok (rw_manager w)"
  shows "\<exists>clean rel dc docs f ks. request_path req = Inr (clean, rel)
   \<and> map_option snd (load_rules (effective_config cfg req) w rel) = Some dc
   \<and> rw_roots w (sc_root_dir (effective_config cfg req)) = Some docs
   \<and> file_at (snd docs) (normal_components rel @ ks) = Some f \<and> h = df_handle f
   \<and> list_all simple_name (normal_components rel @ ks)
   \<and> set ks \<subseteq> insert ''index.html'' (set (configured_indexes dc))
   \<and> ''.veysrule'' \<notin> set (normal_components rel)
   \<and> (deny_hidden (effective_config cfg req) dc \<longrightarrow> \<not> has_hidden_component rel)
   \<and> rq_method req = Get
   \<and> (case dc_methods dc of None \<Rightarrow> True | Some ms \<Rightarrow> list_ex (\<lambda>m. eq_ignore_ascii_case m ''GET'') ms)
   \<and> (case peer of None \<Rightarrow> True | Some addr \<Rightarrow> \<not> ip_denied dc (fst addr))"
proof -
  let ?cfg = "effective_config cfg req"
  obtain r clean rel dc m where early: "early_answer m req = None" and path: "request_path req = Inr (clean, rel)"
    and rules: "map_option snd (load_rules ?cfg w rel) = Some dc" and r: "file_body r = Some h"
    and ans: "answer_from ?cfg dc (rw_roots w (sc_root_dir ?cfg)) (rw_now w) req peer clean rel = Some r"
    using handle_request_parts [OF assms(1,2)] by blast
  have idx: "index_ok dc" using rules load_rules_index assms(3) by fastforce
  obtain docs f ks where none: "rule_answer ?cfg dc req peer clean rel = None" "rq_method req \<noteq> Head"
    and docs: "rw_roots w (sc_root_dir ?cfg) = Some docs"
    and f: "file_at (snd docs) (normal_components rel @ ks) = Some f" "h = df_handle f"
    and ks: "set ks \<subseteq> insert ''index.html'' (set (configured_indexes dc))"
    using answer_from_file [OF ans r idx] by blast
  have get: "rq_method req = Get"
    using early none(2) by (auto simp: early_answer_def split: if_splits http_method.splits)
  have "list_all simple_name (normal_components rel @ ks)"
    using ks configured_simple [OF idx] normal_components_simple [of _ rel] by (auto simp: list_all_iff simple_name_def)
  moreover have "''.veysrule'' \<notin> set (normal_components rel)"
    using path by (auto simp: request_path_def is_protected_rule_path_def list_ex_iff Let_def split: option.splits sum.splits if_splits)
  moreover have "deny_hidden ?cfg dc \<longrightarrow> \<not> has_hidden_component rel"
    "case dc_methods dc of None \<Rightarrow> True | Some ms \<Rightarrow> list_ex (\<lambda>m. eq_ignore_ascii_case m ''GET'') ms"
    "case peer of None \<Rightarrow> True | Some addr \<Rightarrow> \<not> ip_denied dc (fst addr)"
    using none(1) get by (auto simp: rule_answer_def split: if_splits option.splits)
  ultimately show ?thesis using path rules docs f ks get by blast
qed

section \<open>A request to a small site\<close>

definition demo_file :: doc_file where
  "demo_file = \<lparr>df_handle = (\<lambda>k. Inr [Chunk (drop k (str_bytes ''hello''))]), df_len = 5, df_mtime = 0\<rparr>"

definition demo_docs :: doc_node where
  "demo_docs = DocDir 0 [(''secret'', DocLink ''/etc/passwd''), (''index.html'', DocFile demo_file)]"

definition demo_world :: router_world where
  "demo_world =
     \<lparr>rw_roots = (\<lambda>p. if p = ''./public'' then Some (''/srv/public'', demo_docs) else None), rw_nodes = (\<lambda>p. None),
      rw_clock = 0, rw_now = 784111777, rw_elapsed = ''0.10'', rw_fails = (\<lambda>d. False),
      rw_manager = manager_new ''stderr'', rw_limiter = [], rw_metrics = metrics_zero, rw_log = []\<rparr>"

definition demo_request :: "string \<Rightarrow> http_request" where
  "demo_request uri =
     \<lparr>rq_method = Get, rq_uri = uri, rq_version = ''HTTP/1.1'', rq_headers = [(''Host'', ''localhost'')], rq_body = []\<rparr>"

definition demo_answer :: "string \<Rightarrow> (router_world \<times> http_response) option" where
  "demo_answer uri = handle_request server_config_default demo_world (demo_request uri) (Some (V4 0x7F000001, 4000))"

lemma demo_served: "\<not> Option.is_none (Option.bind (demo_answer ''/'') (\<lambda>a. file_body (snd a)))"
  by code_simp

lemma demo_link_refused: "map_option (\<lambda>a. rs_status (snd a)) (demo_answer ''/secret'') = Some NotFound"
  by code_simp

lemma demo_log: "map_option (\<lambda>a. rw_log (fst a)) (demo_answer ''/../x'') =
   Some [(''stdout'', ''[INFO] 127.0.0.1 '' @ QUOTE @ ''GET /../x HTTP/1.1'' @ QUOTE @ '' 403 44 0.10ms'' @ [LF])]"
  by code_simp

theorem served_file_confined_witness:
  "\<exists>w' resp h f ks. demo_answer ''/'' = Some (w', resp) \<and> file_body resp = Some h
     \<and> file_at demo_docs ks = Some f \<and> h = df_handle f"
proof -
  obtain a h where a: "demo_answer ''/'' = Some a" "file_body (snd a) = Some h"
    using demo_served by (auto simp: Option.is_none_def bind_eq_None_conv)
  obtain w' resp where "a = (w', resp)" by (cases a)
  note served = a [unfolded this snd_conv]
  have "rules_ok (rw_manager demo_world)" by (simp add: rules_ok_def demo_world_def manager_new_def)
  from served_file_confined [OF served(1) [unfolded demo_answer_def] served(2) this]
  obtain docs f ks where "rw_roots demo_world (sc_root_dir (effective_config server_config_default (demo_request ''/''))) = Some docs"
    "file_at (snd docs) ks = Some f" "h = df_handle f" by blast
  moreover have "sc_root_dir (effective_config server_config_default (demo_request ''/'')) = ''./public''" by code_simp
  ultimately have "file_at demo_docs ks = Some f" "h = df_handle f" by (auto simp: demo_world_def)
  then show ?thesis using served by blast
qed

section \<open>The handler returns\<close>

lemma open_beneath_total: "\<exists>r. open_beneath docs rel = Some r"
  unfolding open_beneath_def by (rule open_returns) (simp add: simple_name_def)

lemma directory_answer_total: "\<exists>r. directory_answer cfg dc docs clean rel = Some r"
proof -
  have "first_ok (\<lambda>i. open_beneath docs (path_push rel i)) (configured_indexes dc) \<noteq> None"
    using open_beneath_total by (intro first_ok_total) (metis option.distinct(1))
  then show ?thesis by (auto simp: directory_answer_def split: option.splits)
qed

lemma handle_404_total: "\<exists>r. handle_404 docs dc = Some r"
proof (cases "error_page_path dc")
  case (Some p)
  show ?thesis
  proof (cases "normalize_relative_path p")
    case (Inr rel)
    then show ?thesis using Some open_beneath_total [of docs rel]
      by (auto simp: handle_404_def Let_def split: option.splits sum.splits)
  qed (use Some in \<open>simp add: handle_404_def Let_def\<close>)
qed (simp add: handle_404_def Let_def)

definition expiry_ok :: "nat \<Rightarrow> directory_config \<Rightarrow> bool" where
  "expiry_ok now dc = (case dc_expires dc of None \<Rightarrow> True | Some secs \<Rightarrow> now + secs < 2 ^ 63)"

lemma file_answer_total: "expiry_ok now dc \<Longrightarrow> \<exists>r. file_answer cfg dc now req f p = Some r"
  by (auto simp: file_answer_def cache_headers_def expiry_ok_def Let_def split: option.splits)

lemma answer_from_total:
  assumes "index_ok dc" "expiry_ok now dc"
  shows "\<exists>r. answer_from cfg dc found now req peer clean rel = Some r"
proof (cases "rule_answer cfg dc req peer clean rel")
  case None
  show ?thesis
  proof (cases found)
    case (Some docs)
    obtain d where d: "directory_answer cfg dc docs clean rel = Some d" using directory_answer_total by blast
    obtain opn where opn: "open_beneath_with_index docs (open_path dc rel) (configured_indexes dc) = Some opn"
      using open_returns [OF configured_simple [OF assms(1)]] by blast
    show ?thesis using None Some d opn handle_404_total [of docs dc] file_answer_total [OF assms(2)]
      by (cases d; cases opn) (auto simp: answer_from_def)
  qed (simp add: answer_from_def None)
qed (simp add: answer_from_def)

text \<open>A configured security header is present once it is added, and later ones do not remove it.\<close>

lemma find_header_snoc:
  "find_header (hs @ [h]) n =
     (case find_header hs n of Some v \<Rightarrow> Some v | None \<Rightarrow> if eq_ignore_ascii_case (fst h) n then Some (snd h) else None)"
  by (induction hs) (auto simp: find_header_def)

lemma find_header_ex: "list_ex (\<lambda>h. eq_ignore_ascii_case (fst h) n) hs \<longleftrightarrow> find_header hs n \<noteq> None"
  by (induction hs) (auto simp: find_header_def)

lemma default_header_value:
  "find_header (rs_headers (add_default_header r d)) n =
     (case find_header (rs_headers r) n of
        Some v \<Rightarrow> Some v
      | None \<Rightarrow> if find_header (rs_headers r) (fst d) = None \<and> eq_ignore_ascii_case (fst d) n then snd d else None)"
  by (auto simp: add_default_header_def find_header_ex find_header_snoc split: option.splits)

lemma default_header_present:
  "snd d \<noteq> None \<Longrightarrow> find_header (rs_headers (add_default_header r d)) (fst d) \<noteq> None"
  by (auto simp: default_header_value eq_ignore_ascii_case_refl split: option.splits)

lemma default_headers_keep:
  "find_header (rs_headers r) n = Some v \<Longrightarrow> find_header (rs_headers (foldl add_default_header r ds)) n = Some v"
  by (induction ds arbitrary: r) (auto simp: default_header_value)

lemma default_headers_present:
  "d \<in> set ds \<Longrightarrow> snd d \<noteq> None \<Longrightarrow> find_header (rs_headers (foldl add_default_header r ds)) (fst d) \<noteq> None"
proof (induction ds arbitrary: r)
  case (Cons e ds)
  show ?case
  proof (cases "d = e")
    case True
    then obtain v where "find_header (rs_headers (add_default_header r e)) (fst d) = Some v"
      using default_header_present [of e r] Cons.prems(2) by auto
    then show ?thesis using default_headers_keep by simp
  qed (use Cons in simp)
qed simp

definition secured :: "server_config \<Rightarrow> http_response \<Rightarrow> bool" where
  "secured cfg r \<longleftrightarrow> list_all (\<lambda>d. snd d = None \<or> find_header (rs_headers r) (fst d) \<noteq> None) (security_defaults cfg)"

lemma security_headers_present: "secured cfg (apply_security_headers r cfg)"
  unfolding secured_def list_all_iff apply_security_headers_def using default_headers_present by blast

lemma answer_request_total:
  assumes "rules_ok (rw_manager w)"
    and "\<And>clean rel. request_path req = Inr (clean, rel) \<Longrightarrow>
      \<exists>dc. map_option snd (load_rules cfg w rel) = Some dc \<and> expiry_ok (rw_now w) dc"
  shows "\<exists>w' r. answer_request cfg w req peer = Some (w', r) \<and> rules_ok (rw_manager w')
    \<and> REQUESTS_ACTIVE (rw_metrics w') = REQUESTS_ACTIVE (rw_metrics w)"
proof (cases "early_answer (rw_metrics w) req")
  case None
  show ?thesis
  proof (cases "request_path req")
    case (Inr p)
    obtain clean rel where p: "p = (clean, rel)" by (cases p)
    from assms(2) Inr p obtain w1 dc where l: "load_rules cfg w rel = Some (w1, dc)" "expiry_ok (rw_now w) dc" by auto
    have "rules_ok (rw_manager w1)" "index_ok dc" using load_rules_index [OF l(1) assms(1)] by auto
    moreover have "rw_now w1 = rw_now w" "rw_metrics w1 = rw_metrics w" using l(1) by (auto simp: load_rules_def split: option.splits)
    ultimately show ?thesis using None Inr p l answer_from_total [of dc "rw_now w" cfg _ req peer clean rel]
      by (auto simp: answer_request_def)
  qed (use None assms(1) in \<open>simp add: answer_request_def\<close>)
qed (use assms(1) in \<open>simp add: answer_request_def\<close>)

text \<open>
  C35. The handler answers every request: unless the rule parser panics or the expiry time of the path
  lies beyond what the system time can hold, it returns a response; the response carries every
  configured security header, the gauge of active requests is what it was before, and the rule cache
  keeps its invariant.
\<close>

theorem handler_returns:
  assumes "rules_ok (rw_manager w)"
    and "\<And>clean rel. request_path req = Inr (clean, rel) \<Longrightarrow>
      \<exists>dc. map_option snd (load_rules (effective_config cfg req) w rel) = Some dc \<and> expiry_ok (rw_now w) dc"
  shows "\<exists>w' resp. handle_request cfg w req peer = Some (w', resp) \<and> secured cfg resp
    \<and> REQUESTS_ACTIVE (rw_metrics w') = REQUESTS_ACTIVE (rw_metrics w) \<and> rules_ok (rw_manager w')"
proof -
  obtain lim ok where lim: "(case peer of
       Some addr \<Rightarrow> allow_request (rw_limiter w) (rw_clock w) (fst addr) (sc_rate_limit_per_second cfg) (sc_rate_limit_burst cfg)
     | None \<Rightarrow> (rw_limiter w, True)) = (lim, ok)" by fastforce
  let ?w = "w\<lparr>rw_limiter := lim, rw_metrics := guard_begin (rw_metrics w)\<rparr>"
  have same: "map_option snd (load_rules c ?w rel) = map_option snd (load_rules c w rel)" for c rel
    by (rule load_rules_same) simp_all
  from assms(2) have "\<exists>w' r. answer_request (effective_config cfg req) ?w req peer = Some (w', r)
      \<and> rules_ok (rw_manager w') \<and> REQUESTS_ACTIVE (rw_metrics w') = REQUESTS_ACTIVE (rw_metrics ?w)"
    by (intro answer_request_total) (simp_all add: assms(1) same)
  then obtain w1 r where ans: "answer_request (effective_config cfg req) ?w req peer = Some (w1, r)"
    "rules_ok (rw_manager w1)" "REQUESTS_ACTIVE (rw_metrics w1) = REQUESTS_ACTIVE (rw_metrics w) + 1"
    by (auto simp: guard_begin_def)
  have "\<exists>w'. handle_request_inner (effective_config cfg req) (w\<lparr>rw_limiter := lim\<rparr>) req peer = Some (w', r)
      \<and> rules_ok (rw_manager w') \<and> REQUESTS_ACTIVE (rw_metrics w') = REQUESTS_ACTIVE (rw_metrics w)"
    using ans by (simp add: handle_request_inner_def log_access_def guard_drop_def record_response_def Let_def)
  then show ?thesis using lim security_headers_present assms(1)
    unfolding handle_request_def effective_config_if by (auto simp: Let_def)
qed

theorem handler_returns_witness:
  "\<exists>w' resp. demo_answer ''/'' = Some (w', resp) \<and> secured server_config_default resp"
proof -
  have "rules_ok (rw_manager demo_world)" by (simp add: rules_ok_def demo_world_def manager_new_def)
  moreover have "map_sum (\<lambda>r. ()) id (request_path (demo_request ''/'')) = Inr (''/'', [])" by code_simp
  then have "request_path (demo_request ''/'') = Inr (''/'', [])" by (cases "request_path (demo_request ''/'')") auto
  moreover have "map_option snd (load_rules (effective_config server_config_default (demo_request ''/'')) demo_world []) =
      Some directory_config_default" by code_simp
  moreover have "expiry_ok n directory_config_default" for n by (simp add: expiry_ok_def directory_config_default_def)
  ultimately show ?thesis
    using handler_returns [of demo_world "demo_request ''/''" server_config_default "Some (V4 0x7F000001, 4000)"]
    unfolding demo_answer_def by auto
qed

end
