(* ===== verification/Spec2Isabelle.thy ===== *)
theory Spec2Isabelle
  imports H2_Session Thread_Pool Router_Safety
begin

text \<open>
  A verification development for the VeySRS web server (under src/src).
\<close>

end
